theory Spec2Isabelle
  imports Complex_Main
begin

section \<open>Python values used by the parser\<close>

text \<open>
  The exceptions the modelled code can raise. A function of the source that can raise
  returns \<open>py_error + 'a\<close>, with \<open>Inl\<close> for the exception.
\<close>

datatype py_error = IndexError | TypeError | ValueError | ZeroDivisionError | OverflowError

text \<open>\<open>str(n)\<close> for a Python int: decimal digits, with a leading minus sign.\<close>

definition digit_char :: "nat \<Rightarrow> char" where
  "digit_char n = ''0123456789'' ! (n mod 10)"

function str_nat :: "nat \<Rightarrow> string" where
  "str_nat n = (if n < 10 then [digit_char n] else str_nat (n div 10) @ [digit_char n])"
  by pat_completeness auto
termination
  by (relation "measure (\<lambda>n. n)") auto

declare str_nat.simps [simp del]

definition py_str :: "int \<Rightarrow> string" where
  "py_str i = (if i < 0 then CHR ''-'' # str_nat (nat (- i)) else str_nat (nat i))"

text \<open>
  The format specification \<open>0>w\<close> of an f-string: the text right-aligned in a field of
  width \<open>w\<close>, filled on the left with the character \<open>0\<close>; a text of \<open>w\<close> or more
  characters is left as it is.
\<close>

definition format_fill_right :: "nat \<Rightarrow> string \<Rightarrow> string" where
  "format_fill_right w s = replicate (w - length s) CHR ''0'' @ s"

section \<open>Segment (models/segment.py)\<close>

text \<open>
  The fields of \<open>Segment.__init__\<close>. \<open>duration\<close> is a Python float, held as its rational
  value; it is optional because the parser can store a Period's absent duration there.
  \<open>folder\<close> starts as \<open>None\<close>.
\<close>

record Segment =
  name :: string
  index :: int
  suffix :: string
  url :: string
  filesize :: int
  duration :: "rat option"
  byterange :: "int list"
  content :: "string list"
  folder :: "string option"
  segment_type :: string

definition Segment_init :: Segment where
  "Segment_init = \<lparr> name = '''', index = 0, suffix = ''.ts'', url = '''', filesize = 0,
     duration = Some 0, byterange = [], content = [], folder = None,
     segment_type = ''normal'' \<rparr>"

definition add_offset_for_name :: "Segment \<Rightarrow> int \<Rightarrow> Segment" where
  "add_offset_for_name self offset =
     (let self1 = self\<lparr>index := index self + offset\<rparr>
      in self1\<lparr>name := format_fill_right 4 (py_str (index self1)) @ suffix self1\<rparr>)"

definition set_index :: "Segment \<Rightarrow> int \<Rightarrow> Segment" where
  "set_index self i =
     (let self1 = self\<lparr>index := i\<rparr>
      in self1\<lparr>name := format_fill_right 4 (py_str (index self1)) @ suffix self1\<rparr>)"

definition set_folder :: "Segment \<Rightarrow> string \<Rightarrow> Segment" where
  "set_folder self nm = self\<lparr>folder := Some nm\<rparr>"

section \<open>Strings\<close>

text \<open>\<open>s.startswith(p)\<close>, \<open>sub in s\<close> and \<open>s.replace(old, new)\<close> of Python's \<open>str\<close>.\<close>

definition starts_with :: "string \<Rightarrow> string \<Rightarrow> bool" where
  "starts_with s p = (take (length p) s = p)"

fun py_in :: "string \<Rightarrow> string \<Rightarrow> bool" where
  "py_in sub [] = (sub = [])"
| "py_in sub (c # cs) = (starts_with (c # cs) sub \<or> py_in sub cs)"

text \<open>
  \<open>replace\<close> rewrites the occurrences of \<open>old\<close> from the left, without overlap; an empty
  \<open>old\<close> matches before every character and at the end.
\<close>

function replace_from :: "string \<Rightarrow> string \<Rightarrow> string \<Rightarrow> string" where
  "replace_from old new [] = []"
| "replace_from old new (c # cs) =
     (if old \<noteq> [] \<and> starts_with (c # cs) old
      then new @ replace_from old new (drop (length old) (c # cs))
      else c # replace_from old new cs)"
  by pat_completeness auto
termination
  by (relation "measure (\<lambda>(old, new, s). length s)") (auto simp add: neq_Nil_conv)

definition py_replace :: "string \<Rightarrow> string \<Rightarrow> string \<Rightarrow> string" where
  "py_replace s old new =
     (if old = [] then new @ concat (map (\<lambda>c. c # new) s) else replace_from old new s)"

definition is_digit :: "char \<Rightarrow> bool" where
  "is_digit c = (c \<in> set ''0123456789'')"

text \<open>\<open>int(length)\<close> on a string of decimal digits.\<close>

definition int_of_digits :: "string \<Rightarrow> nat" where
  "int_of_digits ds = foldl (\<lambda>a c. 10 * a + (of_char c - 48)) 0 ds"

text \<open>
  \<open>re.match('.*?\$Number%(\d+)d\$', s)\<close>: the match is anchored at the start, \<open>.\<close> does
  not match a newline, and \<open>.*?\<close> takes the shortest prefix, so the group is the digit run
  of the first \<open>$Number%<digits>d$\<close> that no newline precedes. The result is the group,
  \<open>None\<close> when there is no match.
\<close>

definition number_format_here :: "string \<Rightarrow> string option" where
  "number_format_here s =
     (if starts_with s ''$Number%''
      then (let rest = drop 8 s; ds = takeWhile is_digit rest
            in if ds \<noteq> [] \<and> starts_with (dropWhile is_digit rest) ''d$''
               then Some ds else None)
      else None)"

fun re_match_number_format :: "string \<Rightarrow> string option" where
  "re_match_number_format [] = None"
| "re_match_number_format (c # cs) =
     (case number_format_here (c # cs) of
        Some ds \<Rightarrow> Some ds
      | None \<Rightarrow> if c = CHR 0x0A then None else re_match_number_format cs)"

text \<open>
  \<open>re.match('.*?as=audio_(.*?)\)', s)\<close>: the group is the text between the first
  \<open>as=audio_\<close> and the next closing parenthesis, with no newline up to there.
\<close>

definition audio_lang_here :: "string \<Rightarrow> string option" where
  "audio_lang_here s =
     (if starts_with s ''as=audio_''
      then (let rest = drop 9 s;
                g = takeWhile (\<lambda>c. c \<noteq> CHR '')'' \<and> c \<noteq> CHR 0x0A) rest
            in if starts_with (drop (length g) rest) '')'' then Some g else None)
      else None)"

fun re_match_audio_lang :: "string \<Rightarrow> string option" where
  "re_match_audio_lang [] = None"
| "re_match_audio_lang (c # cs) =
     (case audio_lang_here (c # cs) of
        Some g \<Rightarrow> Some g
      | None \<Rightarrow> if c = CHR 0x0A then None else re_match_audio_lang cs)"

text \<open>
  A Python float that is a number has a rational value, and \<open>rat\<close> holds that value.
  \<open>round(x)\<close> of a float is exact on the value: the nearest integer, a tie going to the
  even one.
\<close>

definition py_round :: "rat \<Rightarrow> int" where
  "py_round x =
     (let f = \<lfloor>x\<rfloor>; frac = x - of_int f
      in if frac < 1 / 2 then f
         else if 1 / 2 < frac then f + 1
         else if even f then f else f + 1)"

section \<open>The naming convention of segments\<close>

text \<open>
  The convention in the words of the spec, read off the name alone and without the code
  that builds it: the name is a run of decimal digits followed by the suffix; the digits
  denote the index; they are four at least, and more than four only without a leading
  zero. That is the index in decimal, zero-padded to four digits when it has fewer.
\<close>

definition name_stem :: "Segment \<Rightarrow> string" where
  "name_stem seg = take (length (name seg) - length (suffix seg)) (name seg)"

definition zero_padded_4_digits :: "Segment \<Rightarrow> bool" where
  "zero_padded_4_digits seg \<longleftrightarrow>
     name seg = name_stem seg @ suffix seg \<and>
     list_all is_digit (name_stem seg) \<and>
     int (int_of_digits (name_stem seg)) = index seg \<and>
     4 \<le> length (name_stem seg) \<and>
     (4 < length (name_stem seg) \<longrightarrow> hd (name_stem seg) \<noteq> CHR ''0'')"

section \<open>The manifest tree\<close>

text \<open>
  Modelled from the spec: the node classes (\<open>MPD\<close>, \<open>Period\<close>, \<open>AdaptationSet\<close>,
  \<open>Representation\<close>, \<open>SegmentTemplate\<close>, \<open>SegmentTimeline\<close>, \<open>S\<close>, \<open>BaseURL\<close>, \<open>Role\<close>,
  \<open>ContentProtection\<close>) are imported by the parser and not part of the sources at hand.
  A node is a record of the attributes the parser reads; \<open>node.find(tag)\<close> is the field
  holding the ordered children of that tag. An attribute the parser tests against \<open>None\<close>
  is optional; an attribute it uses in arithmetic or in a string replacement is an integer
  or a string. \<open>hasattr(mpd, 'mediaPresentationDuration')\<close> is \<open>mediaPresentationDuration\<close>
  being \<open>Some\<close>. \<open>get_url\<close> is the raw initialization template, which \<open>walk_s\<close> expects to
  be \<open>None\<close> at times, and \<open>get_media_url\<close> the raw media template.
\<close>

record S =
  s_d :: int
  s_r :: int

record SegmentTimeline =
  find_S :: "S list"

record SegmentTemplate =
  timescale :: int
  startNumber :: int
  presentationTimeOffset :: int
  st_duration :: int
  get_url :: "string option"
  get_media_url :: string
  st_find_SegmentTimeline :: "SegmentTimeline list"

record BaseURL =
  innertext :: string

record Role =
  role_value :: string

type_synonym ContentProtection = string

record Representation =
  rep_id :: string
  rep_bandwidth :: int
  rep_codecs :: "string option"
  rep_mimeType :: "string option"
  rep_width :: "int option"
  rep_height :: "int option"
  rep_find_ContentProtection :: "ContentProtection list"
  rep_find_BaseURL :: "BaseURL list"
  rep_find_SegmentTemplate :: "SegmentTemplate list"
  rep_find_SegmentTimeline :: "SegmentTimeline list"

record AdaptationSet =
  as_id :: string
  as_lang :: "string option"
  as_codecs :: "string option"
  as_mimeType :: "string option"
  as_width :: "int option"
  as_height :: "int option"
  as_find_Role :: "Role list"
  as_find_SegmentTemplate :: "SegmentTemplate list"
  as_find_Representation :: "Representation list"

record Period =
  period_duration :: "rat option"
  find_AdaptationSet :: "AdaptationSet list"

record MPD =
  mediaPresentationDuration :: "rat option"
  mpd_find_BaseURL :: "BaseURL list"
  find_Period :: "Period list"

section \<open>DASHStream\<close>

text \<open>
  Modelled from the spec: the class \<open>DASHStream\<close> (extractors/dash/stream.py) is not part
  of the sources at hand. The spec gives a stream an identity key \<open>skey\<close>, the pair of the
  AdaptationSet id and the Representation id, the attributes language, bandwidth, codec,
  stream type and resolution, a list of protection descriptors and an ordered sequence of
  segments. The parser sets the duration of a segment before it sets its URL, and trims a
  trailing segment with an empty URL afterwards: a stream under construction ends with a
  placeholder segment, which \<open>set_init_url\<close> and \<open>set_media_url\<close> fill in and follow by a
  new placeholder. A placeholder is a \<open>Segment\<close> as its constructor leaves it, given its
  position as index and the stream's directory as folder.
\<close>

record DASHStream =
  stream_index :: int
  stream_name :: string
  home_url :: string
  base_url :: string
  save_dir :: string
  skey :: "string \<times> string"
  lang :: "string option"
  bandwidth :: int
  codecs :: "string option"
  stream_type :: "string option"
  resolution :: "int option \<times> int option"
  keys :: "ContentProtection list"
  segments :: "Segment list"

text \<open>
  The parser object: the two command-line arguments the parser reads, and what the model
  takes as parameters. \<open>fix_url\<close> is the helper that turns a URL of the manifest into an
  absolute one against a stream's \<open>home_url\<close> and \<open>base_url\<close>, an external collaborator.
  \<open>int_truediv\<close> and \<open>float_truediv\<close> are the interpreter's true division \<open>/\<close> of two ints
  and of two floats by a divisor other than zero: the quotient is rounded to a float, which
  exact arithmetic does not reproduce, so the model leaves the float that comes out open.
  Each returns that float, or the exception raised where the quotient is no float that is
  a number (\<open>OverflowError\<close> for two ints; for two floats the infinity, on which the
  \<open>round\<close> that follows raises \<open>OverflowError\<close>).
\<close>

record DASHParser =
  args_split :: bool
  args_save_dir :: string
  fix_url :: "string \<Rightarrow> string \<Rightarrow> string \<Rightarrow> string"
  int_truediv :: "int \<Rightarrow> int \<Rightarrow> py_error + rat"
  float_truediv :: "rat \<Rightarrow> rat \<Rightarrow> py_error + rat"

text \<open>\<open>a / b\<close>: a zero divisor raises \<open>ZeroDivisionError\<close>.\<close>

definition py_int_truediv :: "DASHParser \<Rightarrow> int \<Rightarrow> int \<Rightarrow> py_error + rat" where
  "py_int_truediv self a b = (if b = 0 then Inl ZeroDivisionError else int_truediv self a b)"

definition py_float_truediv :: "DASHParser \<Rightarrow> rat \<Rightarrow> rat \<Rightarrow> py_error + rat" where
  "py_float_truediv self x y = (if y = 0 then Inl ZeroDivisionError else float_truediv self x y)"

definition map_last :: "('a \<Rightarrow> 'a) \<Rightarrow> 'a list \<Rightarrow> 'a list" where
  "map_last f xs = (if xs = [] then [] else butlast xs @ [f (last xs)])"

definition placeholder :: "nat \<Rightarrow> string \<Rightarrow> Segment" where
  "placeholder n dir = set_folder (set_index Segment_init (int n)) dir"

definition append_segment :: "DASHStream \<Rightarrow> DASHStream" where
  "append_segment stream =
     stream\<lparr>segments := segments stream @
       [placeholder (length (segments stream)) (save_dir stream)]\<rparr>"

definition DASHStream_init :: "int \<Rightarrow> string \<Rightarrow> string \<Rightarrow> string \<Rightarrow> string \<Rightarrow> DASHStream" where
  "DASHStream_init sindex nm home base dir =
     append_segment \<lparr> stream_index = sindex, stream_name = nm, home_url = home, base_url = base,
       save_dir = dir, skey = ([], []), lang = None, bandwidth = 0, codecs = None,
       stream_type = None, resolution = (None, None), keys = [], segments = [] \<rparr>"

definition set_skey :: "DASHStream \<Rightarrow> string \<Rightarrow> string \<Rightarrow> DASHStream" where
  "set_skey stream aid rid = stream\<lparr>skey := (aid, rid)\<rparr>"

definition set_lang :: "DASHStream \<Rightarrow> string option \<Rightarrow> DASHStream" where
  "set_lang stream l = stream\<lparr>lang := l\<rparr>"

definition set_bandwidth :: "DASHStream \<Rightarrow> int \<Rightarrow> DASHStream" where
  "set_bandwidth stream b = stream\<lparr>bandwidth := b\<rparr>"

definition set_codecs :: "DASHStream \<Rightarrow> string option \<Rightarrow> DASHStream" where
  "set_codecs stream c = stream\<lparr>codecs := c\<rparr>"

definition set_stream_type :: "DASHStream \<Rightarrow> string option \<Rightarrow> DASHStream" where
  "set_stream_type stream t = stream\<lparr>stream_type := t\<rparr>"

definition set_resolution :: "DASHStream \<Rightarrow> int option \<Rightarrow> int option \<Rightarrow> DASHStream" where
  "set_resolution stream w h = stream\<lparr>resolution := (w, h)\<rparr>"

definition append_key :: "DASHStream \<Rightarrow> ContentProtection \<Rightarrow> DASHStream" where
  "append_key stream k = stream\<lparr>keys := keys stream @ [k]\<rparr>"

text \<open>
  The two direct links of the spec: the subtitle link is the literal BaseURL text, the
  single static file is the stream's base URL with the Period's duration. Both fill the
  placeholder and add no other, which leaves a single-segment stream.
\<close>

definition set_subtitle_url :: "DASHStream \<Rightarrow> string \<Rightarrow> DASHStream" where
  "set_subtitle_url stream u =
     stream\<lparr>segments := map_last (\<lambda>seg. seg\<lparr>url := u, segment_type := ''subtitle''\<rparr>)
       (segments stream)\<rparr>"

definition fix_base_url :: "DASHParser \<Rightarrow> DASHStream \<Rightarrow> string \<Rightarrow> DASHStream" where
  "fix_base_url self stream u =
     stream\<lparr>base_url := fix_url self (home_url stream) (base_url stream) u\<rparr>"

definition base2url :: "DASHStream \<Rightarrow> rat option \<Rightarrow> DASHStream" where
  "base2url stream dur =
     stream\<lparr>segments := map_last (\<lambda>seg. seg\<lparr>url := base_url stream, duration := dur\<rparr>)
       (segments stream)\<rparr>"

definition set_init_url :: "DASHParser \<Rightarrow> DASHStream \<Rightarrow> string \<Rightarrow> DASHStream" where
  "set_init_url self stream u =
     append_segment (stream\<lparr>segments :=
       map_last (\<lambda>seg. seg\<lparr>url := fix_url self (home_url stream) (base_url stream) u,
                           segment_type := ''init''\<rparr>) (segments stream)\<rparr>)"

definition set_media_url :: "DASHParser \<Rightarrow> DASHStream \<Rightarrow> string \<Rightarrow> DASHStream" where
  "set_media_url self stream u =
     append_segment (stream\<lparr>segments :=
       map_last (\<lambda>seg. seg\<lparr>url := fix_url self (home_url stream) (base_url stream) u\<rparr>)
         (segments stream)\<rparr>)"

definition set_segment_duration :: "DASHStream \<Rightarrow> rat \<Rightarrow> DASHStream" where
  "set_segment_duration stream dur =
     stream\<lparr>segments := map_last (\<lambda>seg. seg\<lparr>duration := Some dur\<rparr>) (segments stream)\<rparr>"

definition set_segments_duration :: "DASHStream \<Rightarrow> rat \<Rightarrow> DASHStream" where
  "set_segments_duration stream dur =
     stream\<lparr>segments := map (\<lambda>seg. seg\<lparr>duration := Some dur\<rparr>) (segments stream)\<rparr>"

text \<open>
  Modelled from the spec: \<open>DASHStream.update\<close>, the merge of a later stream of the same
  key into an earlier one, is not part of the sources at hand. The spec has it append the
  later stream's segments after all segments of the earlier one and rewrite the indices to
  remain contiguous; the rewriting is \<open>Segment.add_offset_for_name\<close> with the number of
  segments already there.
\<close>

definition update :: "DASHStream \<Rightarrow> DASHStream \<Rightarrow> DASHStream" where
  "update self stream =
     self\<lparr>segments := segments self @
       map (\<lambda>seg. add_offset_for_name seg (int (length (segments self)))) (segments stream)\<rparr>"

section \<open>DASHParser (extractors/dash/parser.py)\<close>

text \<open>
  A method that can raise returns \<open>py_error + 'a\<close>. The diagnostics printed with
  \<open>click.secho\<close> are returned as a list of messages, in the order printed, next to the
  result. A stream is passed in and returned instead of being modified in place.
\<close>

type_synonym uris = "string \<times> string \<times> string"

definition walk_contentprotection :: "Representation \<Rightarrow> DASHStream \<Rightarrow> DASHStream" where
  "walk_contentprotection rep stream =
     foldl append_key stream (rep_find_ContentProtection rep)"

text \<open>
  \<open>walk_s\<close>, lines 196 to 213: one pass of \<open>for number in range(s.r)\<close> on the running
  \<open>time_offset\<close>, \<open>start_number\<close> and stream. The f-string of line 205 has the format
  specification \<open>>int(length)\<close>, which is not a valid one: formatting raises \<open>ValueError\<close>.
\<close>

definition walk_s_step ::
  "DASHParser \<Rightarrow> SegmentTemplate \<Rightarrow> Representation \<Rightarrow> S \<Rightarrow> rat \<Rightarrow>
     int \<times> int \<times> DASHStream \<Rightarrow> py_error + (int \<times> int \<times> DASHStream)" where
  "walk_s_step self st rep s interval state =
     (case state of (time_offset, start_number, stream) \<Rightarrow>
        let media_url = get_media_url st;
            media_url = (if py_in ''$Bandwidth$'' media_url
                         then py_replace media_url ''$Bandwidth$''
                                (py_str (rep_bandwidth rep))
                         else media_url);
            has_number = py_in ''$Number$'' media_url;
            media_url = (if has_number
                         then py_replace media_url ''$Number$'' (py_str start_number)
                         else media_url);
            start_number = (if has_number then start_number + 1 else start_number)
        in (case re_match_number_format media_url of
             Some len \<Rightarrow> Inl ValueError
           | None \<Rightarrow>
               let media_url = (if py_in ''$RepresentationID$'' media_url
                                then py_replace media_url ''$RepresentationID$''
                                       (rep_id rep)
                                else media_url);
                   has_time = py_in ''$Time$'' media_url;
                   media_url = (if has_time
                                then py_replace media_url ''$Time$'' (py_str time_offset)
                                else media_url);
                   time_offset = (if has_time then time_offset + s_d s else time_offset)
               in Inr (time_offset, start_number,
                       set_media_url self (set_segment_duration stream interval) media_url)))"

fun walk_s_range ::
  "DASHParser \<Rightarrow> SegmentTemplate \<Rightarrow> Representation \<Rightarrow> S \<Rightarrow> rat \<Rightarrow> nat \<Rightarrow>
     int \<times> int \<times> DASHStream \<Rightarrow> py_error + (int \<times> int \<times> DASHStream)" where
  "walk_s_range self st rep s interval 0 state = Inr state"
| "walk_s_range self st rep s interval (Suc n) state =
     (case walk_s_step self st rep s interval state of
        Inl e \<Rightarrow> Inl e
      | Inr state' \<Rightarrow> walk_s_range self st rep s interval n state')"

text \<open>
  Lines 193 to 195: \<open>for s in ss\<close>. \<open>s.d / st.timescale\<close> divides two ints into a float,
  also for a run that repeats no segment; \<open>range(s.r)\<close> is empty for a negative \<open>s.r\<close>.
\<close>

fun walk_s_loop ::
  "DASHParser \<Rightarrow> SegmentTemplate \<Rightarrow> Representation \<Rightarrow> S list \<Rightarrow>
     int \<times> int \<times> DASHStream \<Rightarrow> py_error + (int \<times> int \<times> DASHStream)" where
  "walk_s_loop self st rep [] state = Inr state"
| "walk_s_loop self st rep (s # ss) state =
     (case py_int_truediv self (s_d s) (timescale st) of
        Inl e \<Rightarrow> Inl e
      | Inr interval \<Rightarrow>
          (case walk_s_range self st rep s interval (nat (s_r s)) state of
             Inl e \<Rightarrow> Inl e
           | Inr state' \<Rightarrow> walk_s_loop self st rep ss state'))"

definition walk_s ::
  "DASHParser \<Rightarrow> SegmentTimeline \<Rightarrow> SegmentTemplate \<Rightarrow> Representation \<Rightarrow> DASHStream \<Rightarrow>
     py_error + DASHStream" where
  "walk_s self segmenttimeline st rep stream =
     (let stream =
            (case get_url st of
               None \<Rightarrow> stream
             | Some init_url \<Rightarrow>
                 let init_url = (if py_in ''$RepresentationID$'' init_url
                                 then py_replace init_url ''$RepresentationID$''
                                        (rep_id rep)
                                 else init_url);
                     init_url = (if py_in ''$Bandwidth$'' init_url
                                 then py_replace init_url ''$Bandwidth$''
                                        (py_str (rep_bandwidth rep))
                                 else init_url);
                     stream = (case re_match_audio_lang init_url of
                                 Some l \<Rightarrow> set_lang stream (Some l)
                               | None \<Rightarrow> stream)
                 in set_init_url self stream init_url)
      in case walk_s_loop self st rep (find_S segmenttimeline)
                (presentationTimeOffset st, startNumber st, stream) of
           Inl e \<Rightarrow> Inl e
         | Inr (time_offset, start_number, stream') \<Rightarrow> Inr stream')"

text \<open>
  \<open>generate_v1\<close>, lines 223 to 231: the media URL of one \<open>number\<close>. Here the f-string is
  \<open>{number:0>{int(length)}}\<close>, the number right-aligned and filled with zeros.
\<close>

definition v1_media_url :: "SegmentTemplate \<Rightarrow> string \<Rightarrow> int \<Rightarrow> string" where
  "v1_media_url st rid number =
     (let media_url = get_media_url st;
          media_url = (if py_in ''$Number$'' media_url
                       then py_replace media_url ''$Number$'' (py_str number)
                       else media_url);
          media_url = (case re_match_number_format media_url of
                         Some len \<Rightarrow>
                           py_replace media_url (''$Number%'' @ len @ ''d$'')
                             (format_fill_right (int_of_digits len) (py_str number))
                       | None \<Rightarrow> media_url)
      in if py_in ''$RepresentationID$'' media_url
         then py_replace media_url ''$RepresentationID$'' rid
         else media_url)"

text \<open>
  \<open>generate_v1\<close>. \<open>'$RepresentationID$' in init_url\<close> raises \<open>TypeError\<close> when \<open>get_url\<close> is
  \<open>None\<close>; \<open>int(st.duration) / int(st.timescale)\<close> divides two ints and
  \<open>period.duration / interval\<close> two floats, which raises \<open>TypeError\<close> when the Period has no
  duration; \<open>range(a, b)\<close> is the ascending list from \<open>a\<close> to \<open>b - 1\<close>.
\<close>

definition generate_v1 ::
  "DASHParser \<Rightarrow> Period \<Rightarrow> string \<Rightarrow> SegmentTemplate \<Rightarrow> DASHStream \<Rightarrow> py_error + DASHStream" where
  "generate_v1 self period rid st stream =
     (case get_url st of
        None \<Rightarrow> Inl TypeError
      | Some init_url \<Rightarrow>
          let init_url = (if py_in ''$RepresentationID$'' init_url
                          then py_replace init_url ''$RepresentationID$'' rid
                          else init_url);
              stream = set_init_url self stream init_url
          in (case py_int_truediv self (st_duration st) (timescale st) of
                Inl e \<Rightarrow> Inl e
              | Inr interval \<Rightarrow>
                  (case period_duration period of
                     None \<Rightarrow> Inl TypeError
                   | Some pd \<Rightarrow>
                       (case py_float_truediv self pd interval of
                          Inl e \<Rightarrow> Inl e
                        | Inr ratio \<Rightarrow>
                            let repeat = py_round ratio;
                                stream = foldl (\<lambda>stream number.
                                             set_media_url self stream (v1_media_url st rid number))
                                           stream
                                           (upto (startNumber st) (repeat + startNumber st - 1))
                            in Inr (set_segments_duration stream interval)))))"

definition walk_segmenttimeline ::
  "DASHParser \<Rightarrow> SegmentTemplate \<Rightarrow> Representation \<Rightarrow> DASHStream \<Rightarrow>
     py_error + (string list \<times> DASHStream)" where
  "walk_segmenttimeline self segmenttemplate rep stream =
     (let segmenttimelines = st_find_SegmentTimeline segmenttemplate
      in if length segmenttimelines \<noteq> 1
         then (if length segmenttimelines > 1
               then Inr ([''please report this DASH content.''], stream)
               else Inr ([''stream has no SegmentTimeline between SegmentTemplate tag.''],
                         stream))
         else map_sum id (Pair [])
                (walk_s self (segmenttimelines ! 0) segmenttemplate rep stream))"

definition walk_segmenttemplate ::
  "DASHParser \<Rightarrow> Representation \<Rightarrow> Period \<Rightarrow> DASHStream \<Rightarrow>
     py_error + (string list \<times> DASHStream)" where
  "walk_segmenttemplate self rep period stream =
     (let segmenttemplates = rep_find_SegmentTemplate rep
      in if length segmenttemplates \<noteq> 1
         then (if length segmenttemplates > 1
               then Inr ([''please report this DASH content.''], stream)
               else Inr ([''stream has no SegmentTemplate between Representation tag.''],
                         stream))
         else if length (st_find_SegmentTimeline (segmenttemplates ! 0)) = 0
         then map_sum id (Pair [])
                (generate_v1 self period (rep_id rep) (segmenttemplates ! 0) stream)
         else walk_segmenttimeline self (segmenttemplates ! 0) rep stream)"

text \<open>
  \<open>walk_representation\<close>, lines 126 to 135: the choice of the addressing scheme from the
  SegmentTemplates of the AdaptationSet. The last branch takes every remaining case: one
  template without exactly one timeline, and more than one template.
\<close>

definition walk_representation_templates ::
  "DASHParser \<Rightarrow> SegmentTemplate list \<Rightarrow> Representation \<Rightarrow> Period \<Rightarrow> DASHStream \<Rightarrow>
     py_error + (string list \<times> DASHStream)" where
  "walk_representation_templates self segmenttemplates rep period stream =
     (if length segmenttemplates = 0
      then walk_segmenttemplate self rep period stream
      else if length segmenttemplates = 1 \<and>
              length (st_find_SegmentTimeline (segmenttemplates ! 0)) = 1
      then walk_segmenttimeline self (segmenttemplates ! 0) rep stream
      else map_sum id (Pair [])
             (generate_v1 self period (rep_id rep) (segmenttemplates ! 0) stream))"

text \<open>
  \<open>walk_representation\<close>, lines 94 to 112: the stream of a Representation, created and
  given its attributes.
\<close>

definition walk_representation_stream ::
  "DASHParser \<Rightarrow> AdaptationSet \<Rightarrow> uris \<Rightarrow> int \<Rightarrow> Representation \<Rightarrow> DASHStream" where
  "walk_representation_stream self adaptationset uris sindex rep =
     (case uris of (nm, home, base) \<Rightarrow>
        let stream = DASHStream_init sindex nm home base (args_save_dir self);
            stream = walk_contentprotection rep stream;
            stream = set_skey stream (as_id adaptationset) (rep_id rep);
            stream = set_lang stream (as_lang adaptationset);
            stream = set_bandwidth stream (rep_bandwidth rep);
            stream = (if rep_codecs rep = None
                      then set_codecs stream (as_codecs adaptationset)
                      else set_codecs stream (rep_codecs rep));
            stream = (if rep_mimeType rep = None
                      then set_stream_type stream (as_mimeType adaptationset)
                      else set_stream_type stream (rep_mimeType rep))
        in if rep_width rep = None \<or> rep_height rep = None
           then set_resolution stream (as_width adaptationset) (as_height adaptationset)
           else set_resolution stream (rep_width rep) (rep_height rep))"

text \<open>
  \<open>walk_representation\<close>, lines 94 to 136: the body of \<open>for representation in
  representations\<close>. Every path through it appends one stream to \<open>streams\<close>; the body
  returns that stream.
\<close>

definition walk_representation_body ::
  "DASHParser \<Rightarrow> AdaptationSet \<Rightarrow> Period \<Rightarrow> uris \<Rightarrow> SegmentTemplate list \<Rightarrow> int \<Rightarrow>
     Representation \<Rightarrow> py_error + (string list \<times> DASHStream)" where
  "walk_representation_body self adaptationset period uris segmenttemplates sindex rep =
     (let stream = walk_representation_stream self adaptationset uris sindex rep;
          Roles = as_find_Role adaptationset;
          BaseURLs = rep_find_BaseURL rep
      in if length BaseURLs = 1 \<and> length Roles = 1 \<and> role_value (Roles ! 0) = ''subtitle''
         then Inr ([], set_subtitle_url stream (innertext (BaseURLs ! 0)))
         else let stream = (if length BaseURLs = 1
                            then fix_base_url self stream (innertext (BaseURLs ! 0))
                            else stream)
              in if length BaseURLs = 1 \<and> length segmenttemplates = 0 \<and>
                    length (rep_find_SegmentTimeline rep) = 0
                 then Inr ([], base2url stream (period_duration period))
                 else walk_representation_templates self segmenttemplates rep period stream)"

fun walk_representation_loop ::
  "DASHParser \<Rightarrow> AdaptationSet \<Rightarrow> Period \<Rightarrow> uris \<Rightarrow> SegmentTemplate list \<Rightarrow> int \<Rightarrow>
     Representation list \<Rightarrow> py_error + (string list \<times> DASHStream list)" where
  "walk_representation_loop self adaptationset period uris segmenttemplates sindex [] =
     Inr ([], [])"
| "walk_representation_loop self adaptationset period uris segmenttemplates sindex (rep # reps) =
     (case walk_representation_body self adaptationset period uris segmenttemplates sindex rep of
        Inl e \<Rightarrow> Inl e
      | Inr (msgs, stream) \<Rightarrow>
          (case walk_representation_loop self adaptationset period uris segmenttemplates
                  (sindex + 1) reps of
             Inl e \<Rightarrow> Inl e
           | Inr (msgs', streams) \<Rightarrow> Inr (msgs @ msgs', stream # streams)))"

definition walk_representation ::
  "DASHParser \<Rightarrow> AdaptationSet \<Rightarrow> Period \<Rightarrow> int \<Rightarrow> uris \<Rightarrow>
     py_error + (string list \<times> DASHStream list)" where
  "walk_representation self adaptationset period sindex uris =
     walk_representation_loop self adaptationset period uris
       (as_find_SegmentTemplate adaptationset) sindex (as_find_Representation adaptationset)"

text \<open>
  \<open>walk_adaptationset\<close>: the loop passes \<open>sindex + len(streams)\<close> on, the number of streams
  found so far in this Period added to the start value.
\<close>

fun walk_adaptationset_loop ::
  "DASHParser \<Rightarrow> Period \<Rightarrow> uris \<Rightarrow> int \<Rightarrow> AdaptationSet list \<Rightarrow>
     py_error + (string list \<times> DASHStream list)" where
  "walk_adaptationset_loop self period uris sindex [] = Inr ([], [])"
| "walk_adaptationset_loop self period uris sindex (adaptationset # rest) =
     (if as_mimeType adaptationset = Some ''image/jpeg''
      then walk_adaptationset_loop self period uris sindex rest
      else case walk_representation self adaptationset period sindex uris of
             Inl e \<Rightarrow> Inl e
           | Inr (msgs, streams) \<Rightarrow>
               (case walk_adaptationset_loop self period uris
                       (sindex + int (length streams)) rest of
                  Inl e \<Rightarrow> Inl e
                | Inr (msgs', streams') \<Rightarrow> Inr (msgs @ msgs', streams @ streams')))"

definition walk_adaptationset ::
  "DASHParser \<Rightarrow> Period \<Rightarrow> int \<Rightarrow> uris \<Rightarrow> py_error + (string list \<times> DASHStream list)" where
  "walk_adaptationset self period sindex uris =
     walk_adaptationset_loop self period uris sindex (find_AdaptationSet period)"

text \<open>\<open>walk_period\<close>, lines 45 to 53: the Periods after the duration has been filled in.\<close>

definition backfill_duration :: "MPD \<Rightarrow> Period list" where
  "backfill_duration mpd =
     (let periods = find_Period mpd
      in if length periods = 1 \<and> period_duration (periods ! 0) = None
         then (case mediaPresentationDuration mpd of
                 Some mpd_duration \<Rightarrow> [(periods ! 0)\<lparr>period_duration := Some mpd_duration\<rparr>]
               | None \<Rightarrow> [(periods ! 0)\<lparr>period_duration := Some 0\<rparr>])
         else periods)"

text \<open>Lines 55 to 58: every Period resolved, with \<open>len(streams)\<close> as start index.\<close>

fun walk_period_loop ::
  "DASHParser \<Rightarrow> uris \<Rightarrow> int \<Rightarrow> Period list \<Rightarrow> py_error + (string list \<times> DASHStream list)" where
  "walk_period_loop self uris sindex [] = Inr ([], [])"
| "walk_period_loop self uris sindex (period # periods) =
     (case walk_adaptationset self period sindex uris of
        Inl e \<Rightarrow> Inl e
      | Inr (msgs, streams) \<Rightarrow>
          (case walk_period_loop self uris (sindex + int (length streams)) periods of
             Inl e \<Rightarrow> Inl e
           | Inr (msgs', streams') \<Rightarrow> Inr (msgs @ msgs', streams @ streams')))"

text \<open>
  Lines 60 to 62: \<open>stream.segments[-1]\<close> raises \<open>IndexError\<close> on an empty list; a last
  segment with an empty URL is popped.
\<close>

definition trim_stream :: "DASHStream \<Rightarrow> py_error + DASHStream" where
  "trim_stream stream =
     (if segments stream = [] then Inl IndexError
      else if url (last (segments stream)) = []
      then Inr (stream\<lparr>segments := butlast (segments stream)\<rparr>)
      else Inr stream)"

fun trim_streams :: "DASHStream list \<Rightarrow> py_error + DASHStream list" where
  "trim_streams [] = Inr []"
| "trim_streams (stream # streams) =
     (case trim_stream stream of
        Inl e \<Rightarrow> Inl e
      | Inr stream' \<Rightarrow>
          (case trim_streams streams of
             Inl e \<Rightarrow> Inl e
           | Inr streams' \<Rightarrow> Inr (stream' # streams')))"

text \<open>
  Lines 66 to 72: the dictionary \<open>skey_stream\<close> as the list of its items in insertion
  order, which is the order of \<open>skey_stream.values()\<close>. A stream whose key is present is
  merged into the stream stored under that key; another one is stored under its key.
\<close>

fun merge_streams ::
  "((string \<times> string) \<times> DASHStream) list \<Rightarrow> DASHStream list \<Rightarrow>
     ((string \<times> string) \<times> DASHStream) list" where
  "merge_streams skey_stream [] = skey_stream"
| "merge_streams skey_stream (stream # streams) =
     merge_streams
       (if skey stream \<in> fst ` set skey_stream
        then map (\<lambda>(k, v). if k = skey stream then (k, update v stream) else (k, v)) skey_stream
        else skey_stream @ [(skey stream, stream)])
       streams"

text \<open>\<open>walk_period\<close>, lines 45 to 62: the streams of all Periods, trimmed.\<close>

definition walk_period_streams ::
  "DASHParser \<Rightarrow> MPD \<Rightarrow> uris \<Rightarrow> py_error + (string list \<times> DASHStream list)" where
  "walk_period_streams self mpd uris =
     (case walk_period_loop self uris 0 (backfill_duration mpd) of
        Inl e \<Rightarrow> Inl e
      | Inr (msgs, streams) \<Rightarrow>
          (case trim_streams streams of
             Inl e \<Rightarrow> Inl e
           | Inr streams' \<Rightarrow> Inr (msgs, streams')))"

definition walk_period ::
  "DASHParser \<Rightarrow> MPD \<Rightarrow> uris \<Rightarrow> py_error + (string list \<times> DASHStream list)" where
  "walk_period self mpd uris =
     (case walk_period_streams self mpd uris of
        Inl e \<Rightarrow> Inl e
      | Inr (msgs, streams) \<Rightarrow>
          if length (find_Period mpd) = 1 \<or> args_split self then Inr (msgs, streams)
          else Inr (msgs, map snd (merge_streams [] streams)))"

text \<open>
  \<open>parse\<close>, given what \<open>parse_uri\<close> returned for the URI and the tree \<open>xml_handler\<close> built
  from the content: a BaseURL of the manifest replaces the base URL.
\<close>

definition parse ::
  "DASHParser \<Rightarrow> string \<Rightarrow> uris option \<Rightarrow> MPD \<Rightarrow> py_error + (string list \<times> DASHStream list)" where
  "parse self uri parsed_uri mpd =
     (case parsed_uri of
        None \<Rightarrow> Inr ([''parse '' @ uri @ '' failed''], [])
      | Some (nm, home, base) \<Rightarrow>
          let base_urls = mpd_find_BaseURL mpd;
              uris = (if length base_urls > 0 then (nm, home, innertext (base_urls ! 0))
                      else (nm, home, base))
          in walk_period self mpd uris)"

section \<open>What a resolution adds to a stream\<close>

text \<open>
  The segments a resolution has filled in: those of the stream after it, from the position
  of the placeholder of the stream before it up to, and without, the new placeholder. The
  media segments among them are those of type \<open>normal\<close>, as opposed to an initialization
  segment.
\<close>

definition resolved_segments :: "DASHStream \<Rightarrow> DASHStream \<Rightarrow> Segment list" where
  "resolved_segments before after =
     butlast (drop (length (segments before) - 1) (segments after))"

definition media_segments :: "DASHStream \<Rightarrow> DASHStream \<Rightarrow> Segment list" where
  "media_segments before after =
     filter (\<lambda>seg. segment_type seg = ''normal'') (resolved_segments before after)"

text \<open>
  A stream under construction ends with its placeholder: the streams that
  \<open>walk_representation\<close> hands to the resolution are of that kind.
\<close>

definition under_construction :: "DASHStream \<Rightarrow> bool" where
  "under_construction stream \<longleftrightarrow>
     segments stream \<noteq> [] \<and>
     last (segments stream) = placeholder (length (segments stream) - 1) (save_dir stream)"

text \<open>
  Two views of a segment, used to follow a resolution: its type with its URL, and its type
  with its duration. The duration is wrapped as the result of a division is, to be
  compared with one.
\<close>

definition type_url :: "Segment \<Rightarrow> string \<times> string" where
  "type_url seg = (segment_type seg, url seg)"

definition type_duration :: "Segment \<Rightarrow> string \<times> (py_error + rat) option" where
  "type_duration seg = (segment_type seg, map_option Inr (duration seg))"

text \<open>A segment without its number: what a renumbering leaves unchanged.\<close>

definition segment_content :: "Segment \<Rightarrow> Segment" where
  "segment_content seg = seg\<lparr>index := 0, name := []\<rparr>"

text \<open>The indices of a segment sequence count up from 0 without a gap.\<close>

definition contiguous_from_0 :: "Segment list \<Rightarrow> bool" where
  "contiguous_from_0 segs \<longleftrightarrow> map index segs = map int [0..<length segs]"

text \<open>
  The numbering of a sequence of segments: the indices count up from 0 without a gap, and
  every name follows the convention.
\<close>

definition numbered :: "Segment list \<Rightarrow> bool" where
  "numbered segs \<longleftrightarrow> contiguous_from_0 segs \<and> list_all zero_padded_4_digits segs"

text \<open>
  The merge in the words of the spec: a stream is the merge of the streams of its key among
  \<open>streams\<close> when its segments are theirs, stream after stream in the order of \<open>streams\<close>,
  but for the numbers, and the numbers are contiguous from 0.
\<close>

definition merge_of :: "DASHStream list \<Rightarrow> DASHStream \<Rightarrow> bool" where
  "merge_of streams m \<longleftrightarrow>
     map segment_content (segments m) =
       concat (map (\<lambda>s. map segment_content (segments s))
                 (filter (\<lambda>s. skey s = skey m) streams)) \<and>
     numbered (segments m)"

section \<open>Example manifests\<close>

text \<open>
  Concrete inputs on which the theorems below are evaluated. The URL helper of the example
  parser joins the base URL and the URL; its divisions are the exact ones, which is what
  the interpreter computes wherever the exact quotient is a float, as it is in every
  example below.
\<close>

definition ex_parser :: DASHParser where
  "ex_parser = \<lparr> args_split = False, args_save_dir = ''out'',
     fix_url = (\<lambda>home base u. base @ u),
     int_truediv = (\<lambda>a b. Inr (of_int a / of_int b)),
     float_truediv = (\<lambda>x y. Inr (x / y)) \<rparr>"

definition ex_uris :: uris where
  "ex_uris = (''movie'', ''http://h'', ''http://h/a/'')"

definition ex_template :: SegmentTemplate where
  "ex_template = \<lparr> timescale = 1, startNumber = 1, presentationTimeOffset = 0, st_duration = 4,
     get_url = Some ''init-$RepresentationID$.mp4'', get_media_url = ''seg-$Number$.m4s'',
     st_find_SegmentTimeline = [] \<rparr>"

definition ex_timeline :: SegmentTimeline where
  "ex_timeline = \<lparr> find_S = [\<lparr> s_d = 2, s_r = 3 \<rparr>, \<lparr> s_d = 4, s_r = 1 \<rparr>] \<rparr>"

definition ex_representation :: Representation where
  "ex_representation = \<lparr> rep_id = ''v0'', rep_bandwidth = 500000, rep_codecs = None,
     rep_mimeType = None, rep_width = None, rep_height = None,
     rep_find_ContentProtection = [], rep_find_BaseURL = [], rep_find_SegmentTemplate = [],
     rep_find_SegmentTimeline = [] \<rparr>"

definition ex_adaptationset :: AdaptationSet where
  "ex_adaptationset = \<lparr> as_id = ''0'', as_lang = None, as_codecs = None,
     as_mimeType = Some ''video/mp4'', as_width = None, as_height = None, as_find_Role = [],
     as_find_SegmentTemplate = [], as_find_Representation = [] \<rparr>"

definition ex_period :: Period where
  "ex_period = \<lparr> period_duration = Some 12, find_AdaptationSet = [] \<rparr>"

definition ex_mpd :: MPD where
  "ex_mpd = \<lparr> mediaPresentationDuration = None, mpd_find_BaseURL = [], find_Period = [] \<rparr>"

definition ex_stream :: DASHStream where
  "ex_stream = DASHStream_init 0 ''movie'' ''http://h'' ''http://h/a/'' ''out''"

text \<open>A manifest of one Period holding one AdaptationSet.\<close>

definition ex_mpd_of :: "AdaptationSet \<Rightarrow> MPD" where
  "ex_mpd_of a = ex_mpd\<lparr>find_Period := [ex_period\<lparr>find_AdaptationSet := [a]\<rparr>]\<rparr>"

text \<open>
  A Representation with its own SegmentTemplate and computed numbering, the scenario of
  the spec: Period duration 12, tick duration 4, timescale 1, start number 1.
\<close>

definition ex_mpd_v1 :: MPD where
  "ex_mpd_v1 = ex_mpd_of (ex_adaptationset\<lparr>as_find_Representation :=
     [ex_representation\<lparr>rep_find_SegmentTemplate := [ex_template]\<rparr>]\<rparr>)"

text \<open>The same, with a template that exposes no initialization URL.\<close>

definition ex_mpd_no_init :: MPD where
  "ex_mpd_no_init = ex_mpd_of (ex_adaptationset\<lparr>as_find_Representation :=
     [ex_representation\<lparr>rep_find_SegmentTemplate := [ex_template\<lparr>get_url := None\<rparr>]\<rparr>]\<rparr>)"

text \<open>
  A Representation whose SegmentTemplate owns a SegmentTimeline; the media template is
  given, as \<open>$Time$\<close>-addressed and with a zero-padded number.
\<close>

definition ex_mpd_timeline :: "string \<Rightarrow> MPD" where
  "ex_mpd_timeline media = ex_mpd_of (ex_adaptationset\<lparr>as_find_Representation :=
     [ex_representation\<lparr>rep_find_SegmentTemplate :=
        [ex_template\<lparr>get_media_url := media, st_find_SegmentTimeline := [ex_timeline]\<rparr>]\<rparr>]\<rparr>)"

text \<open>Two SegmentTemplates at the AdaptationSet level, above one Representation.\<close>

definition ex_mpd_two_templates :: MPD where
  "ex_mpd_two_templates = ex_mpd_of (ex_adaptationset\<lparr>
     as_find_SegmentTemplate := [ex_template, ex_template\<lparr>get_media_url := ''other-$Number$.m4s''\<rparr>],
     as_find_Representation := [ex_representation]\<rparr>)"

text \<open>Two SegmentTemplates inside the Representation itself.\<close>

definition ex_mpd_two_templates_rep :: MPD where
  "ex_mpd_two_templates_rep = ex_mpd_of (ex_adaptationset\<lparr>as_find_Representation :=
     [ex_representation\<lparr>rep_find_SegmentTemplate := [ex_template, ex_template]\<rparr>]\<rparr>)"

text \<open>What is looked at in a result: the messages, and the URLs of every stream.\<close>

definition result_urls ::
  "py_error + (string list \<times> DASHStream list) \<Rightarrow> py_error + (string list \<times> string list list)" where
  "result_urls res = map_sum id (\<lambda>(msgs, streams). (msgs, map (\<lambda>s. map url (segments s)) streams)) res"

text \<open>
  An AdaptationSet without mimeType above a Representation of mimeType \<open>image/jpeg\<close>, and
  an AdaptationSet of mimeType \<open>image/jpeg\<close> above a Representation of mimeType
  \<open>video/mp4\<close>.
\<close>

definition ex_image_representation :: AdaptationSet where
  "ex_image_representation = ex_adaptationset\<lparr>as_mimeType := None, as_find_Representation :=
     [ex_representation\<lparr>rep_mimeType := Some ''image/jpeg'',
        rep_find_SegmentTemplate := [ex_template]\<rparr>]\<rparr>"

definition ex_image_adaptationset :: AdaptationSet where
  "ex_image_adaptationset = ex_adaptationset\<lparr>as_mimeType := Some ''image/jpeg'',
     as_find_Representation :=
       [ex_representation\<lparr>rep_mimeType := Some ''video/mp4'',
          rep_find_SegmentTemplate := [ex_template]\<rparr>]\<rparr>"

text \<open>
  The resolved mime type of the spec: the Representation's mimeType when present, else the
  AdaptationSet's.
\<close>

definition resolved_mimeType :: "AdaptationSet \<Rightarrow> Representation \<Rightarrow> string option" where
  "resolved_mimeType a rep = (case rep_mimeType rep of None \<Rightarrow> as_mimeType a | Some m \<Rightarrow> Some m)"

text \<open>What is looked at in a result: the stream type of every stream.\<close>

definition result_stream_types ::
  "py_error + (string list \<times> DASHStream list) \<Rightarrow> py_error + string option list" where
  "result_stream_types res = map_sum id (\<lambda>(msgs, streams). map stream_type streams) res"







text \<open>
  The scenario of the spec for the merge: two Periods, of durations 12 and 8, each with the
  same AdaptationSet and Representation, resolved by computed numbering. And one Period in
  which two Representations have the same id, hence two streams the same key.
\<close>

definition ex_v1_adaptationset :: AdaptationSet where
  "ex_v1_adaptationset = ex_adaptationset\<lparr>as_find_Representation :=
     [ex_representation\<lparr>rep_find_SegmentTemplate := [ex_template]\<rparr>]\<rparr>"

definition ex_mpd_two_periods :: MPD where
  "ex_mpd_two_periods = ex_mpd\<lparr>find_Period :=
     [ex_period\<lparr>find_AdaptationSet := [ex_v1_adaptationset]\<rparr>,
      ex_period\<lparr>period_duration := Some 8, find_AdaptationSet := [ex_v1_adaptationset]\<rparr>]\<rparr>"

definition ex_mpd_same_id :: MPD where
  "ex_mpd_same_id = ex_mpd_of (ex_adaptationset\<lparr>as_find_Representation :=
     [ex_representation\<lparr>rep_find_SegmentTemplate := [ex_template]\<rparr>,
      ex_representation\<lparr>rep_find_SegmentTemplate := [ex_template]\<rparr>]\<rparr>)"

text \<open>The index, the name and the URL of every segment of every stream of a result.\<close>

definition result_numbers ::
  "py_error + (string list \<times> DASHStream list) \<Rightarrow> py_error + (int \<times> string \<times> string) list list" where
  "result_numbers res =
     map_sum id (\<lambda>(msgs, streams).
       map (\<lambda>s. map (\<lambda>seg. (index seg, name seg, url seg)) (segments s)) streams) res"

section \<open>Properties of the segment naming\<close>

lemma length_str_nat_pos: "0 < length (str_nat n)"
  by (subst str_nat.simps) simp

lemma length_format_fill_right: "length (format_fill_right w s) = max w (length s)"
  by (simp add: format_fill_right_def)

lemma format_fill_right_long: "w \<le> length s \<Longrightarrow> format_fill_right w s = s"
  by (simp add: format_fill_right_def)

lemma nth_digit:
  "k < 10 \<Longrightarrow> is_digit (''0123456789'' ! k) \<and> of_char (''0123456789'' ! k) = 48 + k"
  by (auto simp add: less_Suc_eq numeral_eq_Suc is_digit_def)

lemma digit_char_facts:
  "is_digit (digit_char n) \<and> of_char (digit_char n) = 48 + n mod 10"
  using nth_digit [of "n mod 10"] by (simp add: digit_char_def)

lemma digit_char_zero: "digit_char n = CHR ''0'' \<longleftrightarrow> n mod 10 = 0"
proof
  assume "digit_char n = CHR ''0''"
  then have "of_char (digit_char n) = (48::nat)" by simp
  then show "n mod 10 = 0" by (simp add: digit_char_facts)
next
  assume "n mod 10 = 0"
  then show "digit_char n = CHR ''0''" by (simp add: digit_char_def)
qed

lemma str_nat_small: "n < 10 \<Longrightarrow> str_nat n = [digit_char n]"
  by (subst str_nat.simps) simp

lemma str_nat_large: "\<not> n < 10 \<Longrightarrow> str_nat n = str_nat (n div 10) @ [digit_char n]"
  by (subst str_nat.simps) simp

text \<open>\<open>str\<close> of a natural number is its decimal numeral: digits only, of that value, and
  without a leading zero unless the number is zero.\<close>

lemma str_nat_digits: "list_all is_digit (str_nat n)"
proof (induction n rule: str_nat.induct)
  case (1 n)
  then show ?case
    by (cases "n < 10") (simp_all add: str_nat_small str_nat_large digit_char_facts)
qed

lemma int_of_digits_snoc:
  "int_of_digits (ds @ [c]) = 10 * int_of_digits ds + (of_char c - 48)"
  by (simp add: int_of_digits_def)

lemma int_of_digits_str_nat: "int_of_digits (str_nat n) = n"
proof (induction n rule: str_nat.induct)
  case (1 n)
  show ?case
  proof (cases "n < 10")
    case True
    then show ?thesis
      by (simp add: str_nat_small int_of_digits_def digit_char_facts)
  next
    case False
    with 1 have "int_of_digits (str_nat (n div 10)) = n div 10" by simp
    with False show ?thesis
      by (simp add: str_nat_large int_of_digits_snoc digit_char_facts)
  qed
qed

lemma str_nat_no_leading_zero: "0 < n \<Longrightarrow> hd (str_nat n) \<noteq> CHR ''0''"
proof (induction n rule: str_nat.induct)
  case (1 n)
  show ?case
  proof (cases "n < 10")
    case True
    with 1(2) show ?thesis
      by (simp add: str_nat_small digit_char_zero)
  next
    case False
    then have pos: "0 < n div 10" by simp
    with 1(1) False have "hd (str_nat (n div 10)) \<noteq> CHR ''0''" by simp
    moreover have "str_nat (n div 10) \<noteq> []" using length_str_nat_pos [of "n div 10"] by auto
    ultimately show ?thesis using False
      by (simp add: str_nat_large)
  qed
qed

lemma int_of_digits_zeros: "int_of_digits (replicate k CHR ''0'' @ ds) = int_of_digits ds"
proof -
  have "foldl (\<lambda>a c. 10 * a + (of_char c - 48)) (0::nat) (replicate k CHR ''0'') = 0"
    by (induction k) simp_all
  then show ?thesis by (simp add: int_of_digits_def)
qed

lemma zeros_digits: "list_all is_digit (replicate k CHR ''0'')"
  by (induction k) (simp_all add: is_digit_def)

text \<open>
  A name built by the f-string \<open>{index:0>4}{suffix}\<close> from an index that is a natural
  number follows the convention.
\<close>

lemma zero_padded_fill:
  assumes "name seg = format_fill_right 4 (str_nat n) @ suffix seg" and "index seg = int n"
  shows "zero_padded_4_digits seg"
proof -
  let ?f = "format_fill_right 4 (str_nat n)"
  have stem: "name_stem seg = ?f"
    using assms(1) by (simp add: name_stem_def)
  have digits: "list_all is_digit ?f"
    using str_nat_digits [of n] zeros_digits by (simp add: format_fill_right_def)
  have val: "int_of_digits ?f = n"
    by (simp add: format_fill_right_def int_of_digits_zeros int_of_digits_str_nat)
  have len: "4 \<le> length ?f"
    by (simp add: length_format_fill_right)
  have lead: "hd ?f \<noteq> CHR ''0''" if "4 < length ?f"
  proof -
    from that have long: "4 < length (str_nat n)"
      by (simp add: length_format_fill_right)
    then have "\<not> n < 10" using str_nat_small [of n] by auto
    then have "0 < n" by simp
    moreover from long have "?f = str_nat n" by (simp add: format_fill_right_def)
    ultimately show ?thesis by (simp add: str_nat_no_leading_zero)
  qed
  show ?thesis
    unfolding zero_padded_4_digits_def stem
    using assms digits val len lead by simp
qed

text \<open>
  C10, as amended. After \<open>set_index\<close> and after \<open>add_offset_for_name\<close>, whatever the segment
  and its name were before, the index is the one assigned (respectively the old one plus
  the offset) and the suffix is untouched; and when the new index is not negative the name
  is that index in decimal, zero-padded to four digits, followed by the suffix.
\<close>

theorem segment_name_zero_padded:
  "(0 \<le> i \<longrightarrow> zero_padded_4_digits (set_index seg i)) \<and>
   index (set_index seg i) = i \<and> suffix (set_index seg i) = suffix seg \<and>
   (0 \<le> index seg + k \<longrightarrow> zero_padded_4_digits (add_offset_for_name seg k)) \<and>
   index (add_offset_for_name seg k) = index seg + k \<and>
   suffix (add_offset_for_name seg k) = suffix seg"
proof -
  have a: "zero_padded_4_digits (set_index seg i)" if "0 \<le> i"
    using that by (intro zero_padded_fill [where n = "nat i"])
      (simp_all add: set_index_def py_str_def Let_def)
  have b: "zero_padded_4_digits (add_offset_for_name seg k)" if "0 \<le> index seg + k"
    using that by (intro zero_padded_fill [where n = "nat (index seg + k)"])
      (simp_all add: add_offset_for_name_def py_str_def Let_def)
  show ?thesis
    using a b by (simp add: set_index_def add_offset_for_name_def Let_def)
qed

text \<open>
  The theorem at a fresh segment given index 7, and at that segment moved on by 12345
  and by 120: the names are \<open>0007.ts\<close> and \<open>0127.ts\<close>, and a stale name is replaced.
\<close>

theorem segment_name_zero_padded_witness:
  "zero_padded_4_digits (set_index Segment_init 7) \<and>
   name (set_index Segment_init 7) = ''0007.ts'' \<and>
   zero_padded_4_digits (add_offset_for_name (set_index Segment_init 7) 12345) \<and>
   index (add_offset_for_name (set_index Segment_init 7) 12345) = 12352 \<and>
   name (add_offset_for_name (set_index Segment_init 7) 120) = ''0127.ts''"
proof -
  have a: "zero_padded_4_digits (set_index Segment_init 7)"
    using segment_name_zero_padded [of 7 Segment_init 0] by simp
  have b: "zero_padded_4_digits (add_offset_for_name (set_index Segment_init 7) 12345) \<and>
           index (add_offset_for_name (set_index Segment_init 7) 12345) = 12352"
    using segment_name_zero_padded [of 7 "set_index Segment_init 7" 12345]
    by (simp add: set_index_def Let_def)
  have c: "name (set_index Segment_init 7) = ''0007.ts''" by code_simp
  have d: "name (add_offset_for_name (set_index Segment_init 7) 120) = ''0127.ts''" by code_simp
  show ?thesis using a b c d by simp
qed

text \<open>
  C10, as stated, fails at a negative index: \<open>set_index\<close> with \<open>-5\<close>, and
  \<open>add_offset_for_name\<close> with the offset \<open>-5\<close> on a fresh segment, give the name
  \<open>00-5.ts\<close>, the text \<open>-5\<close> filled to four characters, which is no zero-padded number.
\<close>

theorem negative_index_not_zero_padded:
  "name (set_index Segment_init (- 5)) = ''00-5.ts'' \<and>
   \<not> zero_padded_4_digits (set_index Segment_init (- 5)) \<and>
   name (add_offset_for_name Segment_init (- 5)) = ''00-5.ts'' \<and>
   \<not> zero_padded_4_digits (add_offset_for_name Segment_init (- 5))"
  by code_simp

section \<open>Exceptions and ambiguous structure\<close>

text \<open>
  C1. The claim is that resolution and the merge pass return a stream list for every
  manifest tree, also for a computed-numbering Representation whose template exposes no
  initialization URL and for a stream whose segment list is empty. On the manifest
  \<open>ex_mpd_no_init\<close> (one Representation, one SegmentTemplate without timeline whose
  \<open>get_url\<close> is \<open>None\<close>) \<open>walk_period\<close> and \<open>parse\<close> raise \<open>TypeError\<close>: \<open>generate_v1\<close>
  tests \<open>'$RepresentationID$' in init_url\<close> without the \<open>None\<close> test that \<open>walk_s\<close> makes. And
  the trim step, on a stream whose segment list is empty, raises \<open>IndexError\<close>.
\<close>

theorem no_init_url_raises:
  "walk_period ex_parser ex_mpd_no_init ex_uris = Inl TypeError \<and>
   parse ex_parser ''http://h/a/movie.mpd'' (Some ex_uris) ex_mpd_no_init = Inl TypeError \<and>
   trim_stream (ex_stream\<lparr>segments := []\<rparr>) = Inl IndexError"
  by code_simp

text \<open>
  C2. The claim is that \<open>$Number%0Nd$\<close> is replaced by the zero-padded number in the
  timeline path as in the computed-numbering path. In \<open>walk_s\<close> the replacement text is the
  f-string \<open>{start_number:>int(length)}\<close>, whose format specification is invalid: on a
  timeline whose media template is \<open>seg-$Number%05d$.m4s\<close> the resolution raises
  \<open>ValueError\<close> at the first segment.
\<close>

theorem walk_s_padded_number_raises:
  "walk_period ex_parser (ex_mpd_timeline ''seg-$Number%05d$.m4s'') ex_uris = Inl ValueError"
  by code_simp

text \<open>
  The computed-numbering path does what the claim says: a number shorter than the width
  is padded with zeros, a longer one is written as it is.
\<close>

lemma generate_v1_padded_number_example:
  "v1_media_url (ex_template\<lparr>get_media_url := ''seg-$Number%05d$.m4s''\<rparr>) ''v0'' 7 =
     ''seg-00007.m4s'' \<and>
   v1_media_url (ex_template\<lparr>get_media_url := ''seg-$Number%02d$.m4s''\<rparr>) ''v0'' 123 =
     ''seg-123.m4s''"
  by code_simp

text \<open>
  C3. The claim is that more than one SegmentTemplate, at the Representation level or at
  the AdaptationSet level, gives a diagnostic and no media segment. With two
  SegmentTemplates at the AdaptationSet level \<open>walk_representation\<close> reaches its last
  branch, which resolves the first template by computed numbering: three media segments
  and no diagnostic.
\<close>

theorem two_templates_in_adaptationset_resolved:
  "result_urls (walk_period ex_parser ex_mpd_two_templates ex_uris) =
     Inr ([], [[''http://h/a/init-v0.mp4'', ''http://h/a/seg-1.m4s'', ''http://h/a/seg-2.m4s'',
                ''http://h/a/seg-3.m4s'']])"
  by code_simp

text \<open>
  At the Representation level the two templates are reported and the stream is left
  without a segment, as \<open>walk_segmenttemplate\<close> and \<open>walk_segmenttimeline\<close> do for every
  stream.
\<close>

lemma two_templates_in_representation_skipped:
  "result_urls (walk_period ex_parser ex_mpd_two_templates_rep ex_uris) =
     Inr ([''please report this DASH content.''], [[]])"
  by code_simp

lemma walk_segmenttemplate_ambiguous:
  "length (rep_find_SegmentTemplate rep) > 1 \<Longrightarrow>
     walk_segmenttemplate self rep period stream =
       Inr ([''please report this DASH content.''], stream)"
  by (simp add: walk_segmenttemplate_def)

lemma walk_segmenttimeline_ambiguous:
  "length (st_find_SegmentTimeline st) > 1 \<Longrightarrow>
     walk_segmenttimeline self st rep stream =
       Inr ([''please report this DASH content.''], stream)"
  by (simp add: walk_segmenttimeline_def)

section \<open>The duration of a single Period\<close>



text \<open>
  The duration filled in is the one the resolution uses: a single Period without
  duration under an MPD of 12 seconds resolves to the three segments of a Period of 12
  seconds, and to none under an MPD without duration.
\<close>

lemma backfill_duration_used:
  "result_urls (walk_period ex_parser
       (ex_mpd_v1\<lparr>mediaPresentationDuration := Some 12,
          find_Period := map (\<lambda>p. p\<lparr>period_duration := None\<rparr>) (find_Period ex_mpd_v1)\<rparr>) ex_uris) =
     result_urls (walk_period ex_parser ex_mpd_v1 ex_uris) \<and>
   result_urls (walk_period ex_parser
       (ex_mpd_v1\<lparr>find_Period := map (\<lambda>p. p\<lparr>period_duration := None\<rparr>) (find_Period ex_mpd_v1)\<rparr>)
       ex_uris) = Inr ([], [[''http://h/a/init-v0.mp4'']])"
  by code_simp

section \<open>Thumbnail tracks\<close>

text \<open>
  The resolution reads nothing of a Period but its duration: which AdaptationSets the
  Period is given does not matter to the resolution of one of them.
\<close>

lemma generate_v1_period:
  "generate_v1 self (period\<lparr>find_AdaptationSet := x\<rparr>) rid st stream =
     generate_v1 self period rid st stream"
  by (simp add: generate_v1_def Let_def split: option.split sum.split)

lemma walk_segmenttemplate_period:
  "walk_segmenttemplate self rep (period\<lparr>find_AdaptationSet := x\<rparr>) stream =
     walk_segmenttemplate self rep period stream"
  by (simp add: walk_segmenttemplate_def Let_def generate_v1_period)

lemma walk_representation_body_period:
  "walk_representation_body self a (period\<lparr>find_AdaptationSet := x\<rparr>) uris sts sindex rep =
     walk_representation_body self a period uris sts sindex rep"
  by (simp add: walk_representation_body_def walk_representation_templates_def Let_def
      walk_segmenttemplate_period generate_v1_period)

lemma walk_representation_loop_period:
  "walk_representation_loop self a (period\<lparr>find_AdaptationSet := x\<rparr>) uris sts sindex reps =
     walk_representation_loop self a period uris sts sindex reps"
  by (induction reps arbitrary: sindex)
    (simp_all add: walk_representation_body_period split: sum.split prod.split)

lemma walk_adaptationset_loop_period:
  "walk_adaptationset_loop self (period\<lparr>find_AdaptationSet := x\<rparr>) uris sindex as =
     walk_adaptationset_loop self period uris sindex as"
  by (induction as arbitrary: sindex)
    (simp_all add: walk_representation_def walk_representation_loop_period
      split: sum.split prod.split)

lemma walk_adaptationset_loop_filter:
  "walk_adaptationset_loop self period uris sindex
       (filter (\<lambda>a. as_mimeType a \<noteq> Some ''image/jpeg'') as) =
     walk_adaptationset_loop self period uris sindex as"
  by (induction as arbitrary: sindex) (simp_all split: sum.split prod.split)

lemma walk_adaptationset_loop_images:
  "list_all (\<lambda>a. as_mimeType a = Some ''image/jpeg'') as \<Longrightarrow>
     walk_adaptationset_loop self period uris sindex as = Inr ([], [])"
  by (induction as arbitrary: sindex) simp_all

text \<open>
  C5, as amended. An AdaptationSet whose own mimeType is \<open>image/jpeg\<close> yields no stream,
  whatever the mimeType of its Representations: the streams of a Period are those of the
  Period without such AdaptationSets, and a Period of such AdaptationSets only has no
  stream.
\<close>

theorem image_adaptationset_skipped:
  "walk_adaptationset self period sindex uris =
     walk_adaptationset self
       (period\<lparr>find_AdaptationSet :=
          filter (\<lambda>a. as_mimeType a \<noteq> Some ''image/jpeg'') (find_AdaptationSet period)\<rparr>)
       sindex uris \<and>
   (list_all (\<lambda>a. as_mimeType a = Some ''image/jpeg'') (find_AdaptationSet period) \<longrightarrow>
      walk_adaptationset self period sindex uris = Inr ([], []))"
  by (simp add: walk_adaptationset_def walk_adaptationset_loop_period
      walk_adaptationset_loop_filter walk_adaptationset_loop_images)

text \<open>
  The theorem on a Period of two AdaptationSets, the first of mimeType \<open>image/jpeg\<close>
  (above a Representation of mimeType \<open>video/mp4\<close>): the one stream is that of the second;
  and on the Period of the first alone, which has no stream.
\<close>

theorem image_adaptationset_skipped_witness:
  "result_urls (walk_adaptationset ex_parser
       (ex_period\<lparr>find_AdaptationSet := [ex_image_adaptationset, ex_image_representation]\<rparr>)
       0 ex_uris) =
     Inr ([], [[''http://h/a/init-v0.mp4'', ''http://h/a/seg-1.m4s'', ''http://h/a/seg-2.m4s'',
                ''http://h/a/seg-3.m4s'', []]]) \<and>
   walk_adaptationset ex_parser (ex_period\<lparr>find_AdaptationSet := [ex_image_adaptationset]\<rparr>)
       0 ex_uris = Inr ([], [])"
proof -
  let ?p = "ex_period\<lparr>find_AdaptationSet := [ex_image_adaptationset, ex_image_representation]\<rparr>"
  have "walk_adaptationset ex_parser ?p 0 ex_uris =
          walk_adaptationset ex_parser (?p\<lparr>find_AdaptationSet := [ex_image_representation]\<rparr>)
            0 ex_uris"
    using image_adaptationset_skipped [of ex_parser ?p 0 ex_uris]
    by (simp add: ex_image_adaptationset_def ex_image_representation_def ex_adaptationset_def)
  moreover have "result_urls (walk_adaptationset ex_parser
       (?p\<lparr>find_AdaptationSet := [ex_image_representation]\<rparr>) 0 ex_uris) =
     Inr ([], [[''http://h/a/init-v0.mp4'', ''http://h/a/seg-1.m4s'', ''http://h/a/seg-2.m4s'',
                ''http://h/a/seg-3.m4s'', []]])"
    by code_simp
  moreover have "list_all (\<lambda>a. as_mimeType a = Some ''image/jpeg'')
       (find_AdaptationSet (ex_period\<lparr>find_AdaptationSet := [ex_image_adaptationset]\<rparr>))"
    by (simp add: ex_image_adaptationset_def)
  then have "walk_adaptationset ex_parser
       (ex_period\<lparr>find_AdaptationSet := [ex_image_adaptationset]\<rparr>) 0 ex_uris = Inr ([], [])"
    using image_adaptationset_skipped
      [of ex_parser "ex_period\<lparr>find_AdaptationSet := [ex_image_adaptationset]\<rparr>" 0 ex_uris]
    by blast
  ultimately show ?thesis by simp
qed

text \<open>
  C5, as stated, fails where only the Representation has the mimeType \<open>image/jpeg\<close>: the
  resolved mime type is \<open>image/jpeg\<close>, and a stream of that type is produced for the
  Representation.
\<close>

theorem image_representation_resolved:
  "resolved_mimeType ex_image_representation (hd (as_find_Representation ex_image_representation)) =
     Some ''image/jpeg'' \<and>
   result_stream_types (walk_period ex_parser (ex_mpd_of ex_image_representation) ex_uris) =
     Inr [Some ''image/jpeg'']"
  by code_simp

section \<open>The segments of a stream under construction\<close>

lemma placeholder_fields:
  "url (placeholder n dir) = [] \<and> segment_type (placeholder n dir) = ''normal'' \<and>
   duration (placeholder n dir) = Some 0 \<and> index (placeholder n dir) = int n"
  by (simp add: placeholder_def set_folder_def set_index_def Segment_init_def Let_def)

lemma placeholder_views:
  "type_url (placeholder n dir) = (''normal'', []) \<and>
   type_duration (placeholder n dir) = (''normal'', Some (Inr 0))"
  by (simp add: type_url_def type_duration_def placeholder_fields)

lemma length_map_last: "length (map_last f xs) = length xs"
  by (simp add: map_last_def)

lemma map_last_nonempty: "xs \<noteq> [] \<Longrightarrow> map_last f xs = butlast xs @ [f (last xs)]"
  by (simp add: map_last_def)

lemma map_butlast_last: "xs \<noteq> [] \<Longrightarrow> map f xs = map f (butlast xs) @ [f (last xs)]"
  by (metis append_butlast_last_id list.simps(8,9) map_append)

text \<open>What the operations of a stream do to its segments, and what they leave alone.\<close>

lemma segments_set_media_url:
  "segments (set_media_url self s u) =
     map_last (\<lambda>seg. seg\<lparr>url := fix_url self (home_url s) (base_url s) u\<rparr>) (segments s) @
       [placeholder (length (segments s)) (save_dir s)]"
  by (simp add: set_media_url_def append_segment_def length_map_last)

lemma segments_set_init_url:
  "segments (set_init_url self s u) =
     map_last (\<lambda>seg. seg\<lparr>url := fix_url self (home_url s) (base_url s) u,
                         segment_type := ''init''\<rparr>) (segments s) @
       [placeholder (length (segments s)) (save_dir s)]"
  by (simp add: set_init_url_def append_segment_def length_map_last)

lemma segments_set_segment_duration:
  "segments (set_segment_duration s dur) =
     map_last (\<lambda>seg. seg\<lparr>duration := Some dur\<rparr>) (segments s)"
  by (simp add: set_segment_duration_def)

lemma frame_set_media_url:
  "home_url (set_media_url self s u) = home_url s \<and>
   base_url (set_media_url self s u) = base_url s \<and>
   save_dir (set_media_url self s u) = save_dir s"
  by (simp add: set_media_url_def append_segment_def)

lemma frame_set_init_url:
  "home_url (set_init_url self s u) = home_url s \<and>
   base_url (set_init_url self s u) = base_url s \<and>
   save_dir (set_init_url self s u) = save_dir s"
  by (simp add: set_init_url_def append_segment_def)

lemma frame_set_segment_duration:
  "home_url (set_segment_duration s dur) = home_url s \<and>
   base_url (set_segment_duration s dur) = base_url s \<and>
   save_dir (set_segment_duration s dur) = save_dir s"
  by (simp add: set_segment_duration_def)

lemma under_construction_last:
  "under_construction s \<Longrightarrow>
     segments s \<noteq> [] \<and> type_url (last (segments s)) = (''normal'', []) \<and>
     type_duration (last (segments s)) = (''normal'', Some (Inr 0))"
  by (simp add: under_construction_def placeholder_views)

text \<open>One media URL set: the placeholder takes the URL, and a new placeholder follows.\<close>

lemma set_media_url_type_url:
  assumes "segments s \<noteq> []" and "segment_type (last (segments s)) = ''normal''"
  shows "map type_url (segments (set_media_url self s u)) =
           map type_url (butlast (segments s)) @
             [(''normal'', fix_url self (home_url s) (base_url s) u), (''normal'', [])]"
proof -
  have "type_url ((last (segments s))\<lparr>url := fix_url self (home_url s) (base_url s) u\<rparr>) =
          (''normal'', fix_url self (home_url s) (base_url s) u)"
    using assms(2) by (simp add: type_url_def)
  then show ?thesis
    using assms(1) by (simp add: segments_set_media_url map_last_nonempty placeholder_views)
qed

text \<open>The loop of \<open>generate_v1\<close>: one media segment for every number, in order.\<close>

lemma foldl_set_media_url_type_url:
  assumes "segments s \<noteq> []" and "type_url (last (segments s)) = (''normal'', [])"
  shows "map type_url (segments (foldl (\<lambda>s n. set_media_url self s (f n)) s ns)) =
           map type_url (butlast (segments s)) @
             map (\<lambda>n. (''normal'', fix_url self (home_url s) (base_url s) (f n))) ns @
             [(''normal'', [])]"
  using assms
proof (induction ns arbitrary: s)
  case Nil
  then show ?case
    using map_butlast_last [of "segments s" type_url] by simp
next
  case (Cons n ns)
  let ?s1 = "set_media_url self s (f n)"
  from Cons.prems have ty: "segment_type (last (segments s)) = ''normal''"
    by (simp add: type_url_def)
  have seg1: "segments ?s1 =
      (butlast (segments s) @
         [(last (segments s))\<lparr>url := fix_url self (home_url s) (base_url s) (f n)\<rparr>]) @
        [placeholder (length (segments s)) (save_dir s)]"
    using Cons.prems(1) by (simp add: segments_set_media_url map_last_nonempty)
  then have ne: "segments ?s1 \<noteq> []"
    and la: "type_url (last (segments ?s1)) = (''normal'', [])"
    and bl: "butlast (segments ?s1) =
      butlast (segments s) @
        [(last (segments s))\<lparr>url := fix_url self (home_url s) (base_url s) (f n)\<rparr>]"
    by (simp_all add: placeholder_views butlast_append)
  have "map type_url (segments (foldl (\<lambda>s n. set_media_url self s (f n)) ?s1 ns)) =
          map type_url (butlast (segments ?s1)) @
            map (\<lambda>n. (''normal'', fix_url self (home_url ?s1) (base_url ?s1) (f n))) ns @
            [(''normal'', [])]"
    using Cons.IH [OF ne la] .
  moreover have "type_url ((last (segments s))\<lparr>url := fix_url self (home_url s) (base_url s) (f n)\<rparr>) =
          (''normal'', fix_url self (home_url s) (base_url s) (f n))"
    using ty by (simp add: type_url_def)
  ultimately show ?case
    by (simp add: bl frame_set_media_url)
qed

lemma media_of_views:
  "map snd (filter (\<lambda>v. fst v = ''normal'') (map type_url segs)) =
     map url (filter (\<lambda>seg. segment_type seg = ''normal'') segs)"
  by (induction segs) (simp_all add: type_url_def)

lemma media_of_duration_views:
  "map snd (filter (\<lambda>v. fst v = ''normal'') (map type_duration segs)) =
     map (\<lambda>seg. map_option Inr (duration seg))
       (filter (\<lambda>seg. segment_type seg = ''normal'') segs)"
  by (induction segs) (simp_all add: type_duration_def)

section \<open>Computed numbering\<close>

text \<open>
  \<open>round\<close> gives the nearest integer, and of two nearest ones the even one.
\<close>

lemma py_round_nearest:
  "\<bar>x - of_int (py_round x)\<bar> \<le> 1 / 2 \<and>
   (\<bar>x - of_int (py_round x)\<bar> = 1 / 2 \<longrightarrow> even (py_round x))"
proof -
  define f where "f = \<lfloor>x\<rfloor>"
  define r where "r = x - of_int f"
  have r: "0 \<le> r" "r < 1"
    unfolding r_def f_def by linarith+
  have x: "x = of_int f + r"
    by (simp add: r_def)
  have p: "py_round x =
      (if r < 1 / 2 then f else if 1 / 2 < r then f + 1 else if even f then f else f + 1)"
    by (simp add: py_round_def Let_def f_def r_def)
  show ?thesis
    unfolding p unfolding x using r by (auto simp add: abs_if)
qed

lemma set_segments_duration_type_url:
  "map type_url (segments (set_segments_duration s dur)) = map type_url (segments s)"
  by (simp add: set_segments_duration_def type_url_def)

lemma set_segments_duration_all:
  "list_all (\<lambda>seg. duration seg = Some dur) (segments (set_segments_duration s dur))"
  by (simp add: set_segments_duration_def list_all_iff)

lemma set_init_url_views:
  assumes "segments s \<noteq> []"
  shows "segments (set_init_url self s u) \<noteq> []"
    and "type_url (last (segments (set_init_url self s u))) = (''normal'', [])"
    and "type_duration (last (segments (set_init_url self s u))) = (''normal'', Some (Inr 0))"
    and "length (butlast (segments (set_init_url self s u))) = length (segments s)"
    and "take (length (segments s) - 1) (segments (set_init_url self s u)) = butlast (segments s)"
    and "segment_type (segments (set_init_url self s u) ! (length (segments s) - 1)) = ''init''"
  using assms
  by (simp_all add: segments_set_init_url map_last_nonempty placeholder_views nth_append
      butlast_append)

lemma list_all_filter_butlast_drop:
  "list_all P xs \<Longrightarrow> list_all P (filter Q (butlast (drop n xs)))"
  by (auto simp add: list_all_iff dest: in_set_butlastD in_set_dropD)

text \<open>
  The segments that \<open>generate_v1\<close> adds to a stream that has a placeholder: the
  initialization segment, then one media segment for each number from the start number
  on, as many as the rounded quotient says and none when that is not positive, then the
  new placeholder.
\<close>

lemma generate_v1_type_url:
  assumes ok: "generate_v1 self period rid st stream = Inr stream'"
    and ne: "segments stream \<noteq> []"
    and q: "py_float_truediv self D interval = Inr ratio"
    and iv: "py_int_truediv self (st_duration st) (timescale st) = Inr interval"
    and pd: "period_duration period = Some D"
  shows "\<exists>init. map type_url (resolved_segments stream stream') =
           (''init'', init) #
           map (\<lambda>number. (''normal'',
                  fix_url self (home_url stream) (base_url stream) (v1_media_url st rid number)))
             [startNumber st .. startNumber st + py_round ratio - 1]"
    and "list_all (\<lambda>seg. duration seg = Some interval) (segments stream')"
proof -
  from ok obtain init0 where g: "get_url st = Some init0"
    by (cases "get_url st") (simp_all add: generate_v1_def)
  define u where "u = (if py_in ''$RepresentationID$'' init0
                       then py_replace init0 ''$RepresentationID$'' rid else init0)"
  define s1 where "s1 = set_init_url self stream u"
  define ns where "ns = [startNumber st .. startNumber st + py_round ratio - 1]"
  define s2 where "s2 = foldl (\<lambda>s n. set_media_url self s (v1_media_url st rid n)) s1 ns"
  have res: "stream' = set_segments_duration s2 interval"
    using ok g iv pd q
    by (simp add: generate_v1_def Let_def u_def s1_def ns_def s2_def add.commute)
  have seg1: "segments s1 =
      (butlast (segments stream) @
         [(last (segments stream))\<lparr>url := fix_url self (home_url stream) (base_url stream) u,
                                   segment_type := ''init''\<rparr>]) @
        [placeholder (length (segments stream)) (save_dir stream)]"
    using ne by (simp add: s1_def segments_set_init_url map_last_nonempty)
  then have ne1: "segments s1 \<noteq> []"
    and la1: "type_url (last (segments s1)) = (''normal'', [])"
    and bl1: "butlast (segments s1) =
      butlast (segments stream) @
        [(last (segments stream))\<lparr>url := fix_url self (home_url stream) (base_url stream) u,
                                  segment_type := ''init''\<rparr>]"
    by (simp_all add: placeholder_views butlast_append)
  have fr1: "home_url s1 = home_url stream \<and> base_url s1 = base_url stream"
    by (simp add: s1_def frame_set_init_url)
  have v2: "map type_url (segments s2) =
      map type_url (butlast (segments stream)) @
        ((''init'', fix_url self (home_url stream) (base_url stream) u) #
         map (\<lambda>n. (''normal'',
                fix_url self (home_url stream) (base_url stream) (v1_media_url st rid n))) ns) @
        [(''normal'', [])]"
    using foldl_set_media_url_type_url [OF ne1 la1, of self "v1_media_url st rid" ns]
    by (simp add: s2_def bl1 fr1 type_url_def)
  have "map type_url (resolved_segments stream stream') =
      butlast (drop (length (butlast (segments stream))) (map type_url (segments stream')))"
    by (simp add: resolved_segments_def map_butlast drop_map)
  also have "\<dots> =
      butlast (drop (length (butlast (segments stream))) (map type_url (segments s2)))"
    by (simp only: res set_segments_duration_type_url)
  also have "\<dots> = (''init'', fix_url self (home_url stream) (base_url stream) u) #
         map (\<lambda>n. (''normal'',
                fix_url self (home_url stream) (base_url stream) (v1_media_url st rid n))) ns"
    by (simp add: v2 butlast_append)
  finally show "\<exists>init. map type_url (resolved_segments stream stream') =
           (''init'', init) #
           map (\<lambda>number. (''normal'',
                  fix_url self (home_url stream) (base_url stream) (v1_media_url st rid number)))
             [startNumber st .. startNumber st + py_round ratio - 1]"
    by (auto simp add: ns_def)
  show "list_all (\<lambda>seg. duration seg = Some interval) (segments stream')"
    by (simp add: res set_segments_duration_all)
qed

text \<open>
  C7, as amended. For a computed-numbering resolution that returns, with period duration
  \<open>D\<close>, \<open>interval\<close> the quotient of the tick duration by the timescale and \<open>ratio\<close> the
  quotient of \<open>D\<close> by \<open>interval\<close>: the media URLs are the media template with the numbers
  from the start number up to the start number plus \<open>round(ratio) - 1\<close> substituted, in
  that order; they are \<open>round(ratio)\<close> many when that is not negative, and none otherwise;
  and every media segment has the duration \<open>interval\<close>.
\<close>

theorem generate_v1_media_segments:
  assumes "generate_v1 self period rid st stream = Inr stream'"
    and "segments stream \<noteq> []"
    and "py_float_truediv self D interval = Inr ratio"
    and "py_int_truediv self (st_duration st) (timescale st) = Inr interval"
    and "period_duration period = Some D"
  shows "map url (media_segments stream stream') =
           map (\<lambda>number. fix_url self (home_url stream) (base_url stream)
                            (v1_media_url st rid number))
             [startNumber st .. startNumber st + py_round ratio - 1] \<and>
         int (length (media_segments stream stream')) = max 0 (py_round ratio) \<and>
         list_all (\<lambda>seg. duration seg = Some interval) (media_segments stream stream')"
proof -
  from generate_v1_type_url(1) [OF assms] obtain init where
    v: "map type_url (resolved_segments stream stream') =
          (''init'', init) #
          map (\<lambda>number. (''normal'',
                 fix_url self (home_url stream) (base_url stream) (v1_media_url st rid number)))
            [startNumber st .. startNumber st + py_round ratio - 1]"
    by (erule exE)
  have urls: "map url (media_segments stream stream') =
      map (\<lambda>number. fix_url self (home_url stream) (base_url stream)
                       (v1_media_url st rid number))
        [startNumber st .. startNumber st + py_round ratio - 1]"
    unfolding media_segments_def media_of_views [symmetric] v
    by (simp add: filter_map o_def)
  have "length (map url (media_segments stream stream')) =
      length [startNumber st .. startNumber st + py_round ratio - 1]"
    by (simp add: urls)
  then have count: "int (length (media_segments stream stream')) = max 0 (py_round ratio)"
    by simp
  have "list_all (\<lambda>seg. duration seg = Some interval) (media_segments stream stream')"
    unfolding media_segments_def resolved_segments_def
    by (rule list_all_filter_butlast_drop) (rule generate_v1_type_url(2) [OF assms])
  with urls count show ?thesis by simp
qed

text \<open>
  The theorem on the scenario of the spec: Period duration 12, tick duration 4, timescale
  1, start number 1. Three media segments, numbered 1 to 3, of duration 4.
\<close>

theorem generate_v1_media_segments_witness:
  "map url (media_segments ex_stream
       (projr (generate_v1 ex_parser ex_period ''v0'' ex_template ex_stream))) =
     [''http://h/a/seg-1.m4s'', ''http://h/a/seg-2.m4s'', ''http://h/a/seg-3.m4s''] \<and>
   int (length (media_segments ex_stream
       (projr (generate_v1 ex_parser ex_period ''v0'' ex_template ex_stream)))) = 3 \<and>
   list_all (\<lambda>seg. duration seg = Some 4) (media_segments ex_stream
       (projr (generate_v1 ex_parser ex_period ''v0'' ex_template ex_stream)))"
proof -
  have ok: "generate_v1 ex_parser ex_period ''v0'' ex_template ex_stream =
      Inr (projr (generate_v1 ex_parser ex_period ''v0'' ex_template ex_stream))"
    by code_simp
  have ne: "segments ex_stream \<noteq> []" by code_simp
  have q: "py_float_truediv ex_parser 12 4 = Inr 3" by code_simp
  have iv: "py_int_truediv ex_parser (st_duration ex_template) (timescale ex_template) = Inr 4"
    by code_simp
  have pd: "period_duration ex_period = Some 12" by code_simp
  have r: "py_round 3 = 3" by code_simp
  have u: "map (\<lambda>number. fix_url ex_parser (home_url ex_stream) (base_url ex_stream)
                   (v1_media_url ex_template ''v0'' number)) [startNumber ex_template .. startNumber ex_template + 3 - 1] =
      [''http://h/a/seg-1.m4s'', ''http://h/a/seg-2.m4s'', ''http://h/a/seg-3.m4s'']"
    by code_simp
  show ?thesis
    using generate_v1_media_segments [OF ok ne q iv pd] r u by simp
qed

text \<open>
  C7, as stated, fails where the rounded quotient is negative: for a Period duration of
  \<open>-12\<close>, tick duration 4 and timescale 1, \<open>round(D / (dur / ts))\<close> is \<open>-3\<close>, the range of
  numbers is empty and no media segment is emitted, where the claim has the number of
  segments equal \<open>-3\<close>.
\<close>

theorem generate_v1_negative_duration:
  "map_sum id (\<lambda>s. int (length (media_segments ex_stream s)))
     (generate_v1 ex_parser (ex_period\<lparr>period_duration := Some (- 12)\<rparr>) ''v0'' ex_template
        ex_stream) = Inr 0 \<and>
   py_round (- 12 / (of_int (st_duration ex_template) / of_int (timescale ex_template))) = - 3"
  by code_simp

section \<open>The timeline\<close>

text \<open>
  The durations along a resolution, followed in the view of type and duration. The
  segments of a stream that has a placeholder are seen as \<open>V @ [placeholder]\<close>.
\<close>

lemma view_snoc:
  assumes "map f xs = V @ [v]"
  shows "xs \<noteq> [] \<and> map f (butlast xs) = V \<and> f (last xs) = v"
proof -
  from assms have ne: "xs \<noteq> []" by auto
  then have "map f (butlast xs) @ [f (last xs)] = V @ [v]"
    using assms map_butlast_last [of xs f] by simp
  with ne show ?thesis by simp
qed

lemma set_media_url_type_duration:
  assumes "map type_duration (segments s) = V @ [(''normal'', d0)]"
  shows "map type_duration (segments (set_media_url self (set_segment_duration s iv) u)) =
           V @ [(''normal'', Some (Inr iv)), (''normal'', Some (Inr 0))]"
proof -
  from view_snoc [OF assms] have ne: "segments s \<noteq> []"
    and bl: "map type_duration (butlast (segments s)) = V"
    and la: "type_duration (last (segments s)) = (''normal'', d0)"
    by simp_all
  from la have ty: "segment_type (last (segments s)) = ''normal''"
    by (simp add: type_duration_def)
  have "segments (set_media_url self (set_segment_duration s iv) u) =
      butlast (segments s) @
        [(last (segments s))\<lparr>duration := Some iv,
            url := fix_url self (home_url s) (base_url s) u\<rparr>,
         placeholder (length (segments s)) (save_dir s)]"
    using ne
    by (simp add: segments_set_media_url segments_set_segment_duration map_last_nonempty
        frame_set_segment_duration length_map_last)
  moreover have "type_duration ((last (segments s))\<lparr>duration := Some iv,
      url := fix_url self (home_url s) (base_url s) u\<rparr>) = (''normal'', Some (Inr iv))"
    using ty by (simp add: type_duration_def)
  ultimately show ?thesis
    by (simp add: bl placeholder_views)
qed

lemma set_init_url_type_duration:
  assumes "map type_duration (segments s) = V @ [(''normal'', d0)]"
  shows "map type_duration (segments (set_init_url self s u)) =
           V @ [(''init'', d0), (''normal'', Some (Inr 0))]"
proof -
  from view_snoc [OF assms] have ne: "segments s \<noteq> []"
    and bl: "map type_duration (butlast (segments s)) = V"
    and la: "type_duration (last (segments s)) = (''normal'', d0)"
    by simp_all
  have "type_duration ((last (segments s))\<lparr>url := fix_url self (home_url s) (base_url s) u,
      segment_type := ''init''\<rparr>) = (''init'', d0)"
    using la by (simp add: type_duration_def)
  then show ?thesis
    using ne by (simp add: segments_set_init_url map_last_nonempty bl placeholder_views)
qed

lemma walk_s_step_result:
  assumes "walk_s_step self st rep s iv (t, n, stream) = Inr (t', n', stream')"
  shows "\<exists>u. stream' = set_media_url self (set_segment_duration stream iv) u"
  using assms
  by (simp add: walk_s_step_def Let_def split: option.splits) blast

text \<open>One run of the timeline: \<open>range(s.r)\<close> segments of the run's duration.\<close>

lemma walk_s_range_type_duration:
  assumes "walk_s_range self st rep s iv k (t, n, stream) = Inr (t', n', stream')"
    and "map type_duration (segments stream) = V @ [(''normal'', Some (Inr 0))]"
  shows "map type_duration (segments stream') =
           V @ replicate k (''normal'', Some (Inr iv)) @ [(''normal'', Some (Inr 0))]"
  using assms
proof (induction k arbitrary: t n stream V)
  case 0
  then show ?case by simp
next
  case (Suc k)
  from Suc.prems(1) obtain t1 n1 s1 where
    step: "walk_s_step self st rep s iv (t, n, stream) = Inr (t1, n1, s1)" and
    rest: "walk_s_range self st rep s iv k (t1, n1, s1) = Inr (t', n', stream')"
    by (auto split: sum.splits)
  from walk_s_step_result [OF step] obtain u where
    "s1 = set_media_url self (set_segment_duration stream iv) u" by blast
  then have "map type_duration (segments s1) =
      (V @ [(''normal'', Some (Inr iv))]) @ [(''normal'', Some (Inr 0))]"
    using set_media_url_type_duration [OF Suc.prems(2)] by simp
  from Suc.IH [OF rest this] show ?case
    by (simp add: replicate_append_same)
qed

text \<open>All runs, in order; every run divides its tick duration by the timescale.\<close>

lemma walk_s_loop_type_duration:
  assumes "walk_s_loop self st rep ss (t, n, stream) = Inr (t', n', stream')"
    and "map type_duration (segments stream) = V @ [(''normal'', Some (Inr 0))]"
  shows "map type_duration (segments stream') =
           V @ concat (map (\<lambda>s. replicate (nat (s_r s))
                  (''normal'', Some (py_int_truediv self (s_d s) (timescale st)))) ss) @
             [(''normal'', Some (Inr 0))]"
  using assms
proof (induction ss arbitrary: t n stream V)
  case Nil
  then show ?case by simp
next
  case (Cons s ss)
  from Cons.prems(1) obtain iv where
    iv: "py_int_truediv self (s_d s) (timescale st) = Inr iv"
    by (auto split: sum.splits)
  with Cons.prems(1) obtain t1 n1 s1 where
    run: "walk_s_range self st rep s iv (nat (s_r s)) (t, n, stream) = Inr (t1, n1, s1)" and
    rest: "walk_s_loop self st rep ss (t1, n1, s1) = Inr (t', n', stream')"
    by (auto split: sum.splits)
  have "map type_duration (segments s1) =
      (V @ replicate (nat (s_r s)) (''normal'', Some (Inr iv))) @ [(''normal'', Some (Inr 0))]"
    using walk_s_range_type_duration [OF run Cons.prems(2)] by simp
  from Cons.IH [OF rest this] show ?case
    by (simp add: iv)
qed

lemma walk_s_unfold:
  assumes "walk_s self timeline st rep stream = Inr stream'"
    and "map type_duration (segments stream) = V @ [(''normal'', Some (Inr 0))]"
  shows "\<exists>s1 t' n' I.
           walk_s_loop self st rep (find_S timeline) (presentationTimeOffset st, startNumber st, s1) =
             Inr (t', n', stream') \<and>
           map type_duration (segments s1) = (V @ I) @ [(''normal'', Some (Inr 0))] \<and>
           filter (\<lambda>v. fst v = ''normal'') I = []"
proof (cases "get_url st")
  case None
  with assms(1) obtain t' n' where
    "walk_s_loop self st rep (find_S timeline) (presentationTimeOffset st, startNumber st, stream) =
       Inr (t', n', stream')"
    by (auto simp add: walk_s_def split: sum.splits)
  with assms(2) show ?thesis
    by (intro exI [of _ stream] exI [of _ t'] exI [of _ n'] exI [of _ "[]"]) simp
next
  case (Some init0)
  define u where "u = (let i = (if py_in ''$RepresentationID$'' init0
                                then py_replace init0 ''$RepresentationID$'' (rep_id rep)
                                else init0)
                       in if py_in ''$Bandwidth$'' i
                          then py_replace i ''$Bandwidth$'' (py_str (rep_bandwidth rep))
                          else i)"
  define s0 where "s0 = (case re_match_audio_lang u of
                           Some l \<Rightarrow> set_lang stream (Some l) | None \<Rightarrow> stream)"
  have seg0: "segments s0 = segments stream"
    by (simp add: s0_def set_lang_def split: option.split)
  from assms(1) Some obtain t' n' where
    "walk_s_loop self st rep (find_S timeline)
       (presentationTimeOffset st, startNumber st, set_init_url self s0 u) =
       Inr (t', n', stream')"
    by (auto simp add: walk_s_def Let_def u_def s0_def split: sum.splits)
  moreover have "map type_duration (segments (set_init_url self s0 u)) =
      (V @ [(''init'', Some (Inr 0))]) @ [(''normal'', Some (Inr 0))]"
    using set_init_url_type_duration [of s0 V "Some (Inr 0)" self u] assms(2)
    by (simp add: seg0)
  ultimately show ?thesis
    by (intro exI [of _ "set_init_url self s0 u"] exI [of _ t'] exI [of _ n']
        exI [of _ "[(''init'', Some (Inr 0))]"]) simp
qed

lemma normal_runs:
  "map snd (filter (\<lambda>v. fst v = ''normal'')
       (concat (map (\<lambda>s. replicate (k s) (''normal'', x s)) ss))) =
     concat (map (\<lambda>s. replicate (k s) (x s)) ss)"
  by (induction ss) simp_all

lemma length_runs:
  "length (concat (map (\<lambda>s. replicate (k s) (x s)) ss)) = (\<Sum>s\<leftarrow>ss. k s)"
  by (induction ss) simp_all

text \<open>
  C6, as amended. For a resolution of a SegmentTimeline that returns, on a stream under
  construction: the media segments emitted are, run after run in the order of the \<open>S\<close>
  entries, \<open>r\<close> segments for a run of repeat count \<open>r\<close>, and none for a run whose \<open>r\<close> is
  negative; each has as duration the quotient of the tick duration \<open>d\<close> of its run by the
  timescale. Their number is the sum of the repeat counts, a negative one counted as 0.
\<close>

theorem walk_s_media_segments:
  assumes "walk_s self timeline st rep stream = Inr stream'"
    and "under_construction stream"
  shows "map (\<lambda>seg. map_option Inr (duration seg)) (media_segments stream stream') =
           concat (map (\<lambda>s. replicate (nat (s_r s))
                    (Some (py_int_truediv self (s_d s) (timescale st)))) (find_S timeline)) \<and>
         length (media_segments stream stream') = (\<Sum>s\<leftarrow>find_S timeline. nat (s_r s))"
proof -
  have v0: "map type_duration (segments stream) =
      map type_duration (butlast (segments stream)) @ [(''normal'', Some (Inr 0))]"
    using under_construction_last [OF assms(2)]
      map_butlast_last [of "segments stream" type_duration]
    by simp
  from walk_s_unfold [OF assms(1) v0] obtain s1 t' n' I where
    loop: "walk_s_loop self st rep (find_S timeline)
             (presentationTimeOffset st, startNumber st, s1) = Inr (t', n', stream')" and
    v1: "map type_duration (segments s1) =
           (map type_duration (butlast (segments stream)) @ I) @ [(''normal'', Some (Inr 0))]" and
    I: "filter (\<lambda>v. fst v = ''normal'') I = []"
    by blast
  let ?R = "concat (map (\<lambda>s. replicate (nat (s_r s))
              (''normal'', Some (py_int_truediv self (s_d s) (timescale st)))) (find_S timeline))"
  have v': "map type_duration (segments stream') =
      map type_duration (butlast (segments stream)) @ (I @ ?R) @ [(''normal'', Some (Inr 0))]"
    using walk_s_loop_type_duration [OF loop v1] by simp
  have "map type_duration (resolved_segments stream stream') =
      butlast (drop (length (butlast (segments stream))) (map type_duration (segments stream')))"
    by (simp add: resolved_segments_def map_butlast drop_map)
  also have "\<dots> = I @ ?R"
    by (simp add: v' butlast_append)
  finally have res: "map type_duration (resolved_segments stream stream') = I @ ?R" .
  have durs: "map (\<lambda>seg. map_option Inr (duration seg)) (media_segments stream stream') =
      concat (map (\<lambda>s. replicate (nat (s_r s))
               (Some (py_int_truediv self (s_d s) (timescale st)))) (find_S timeline))"
  proof -
    have "map (\<lambda>seg. map_option Inr (duration seg)) (media_segments stream stream') =
        map snd (filter (\<lambda>v. fst v = ''normal'')
          (map type_duration (resolved_segments stream stream')))"
      by (simp add: media_segments_def media_of_duration_views)
    also have "\<dots> = map snd (filter (\<lambda>v. fst v = ''normal'') I @
        filter (\<lambda>v. fst v = ''normal'') ?R)"
      by (simp only: res filter_append)
    also have "\<dots> = map snd (filter (\<lambda>v. fst v = ''normal'') ?R)"
      by (simp only: I append_Nil)
    also have "\<dots> = concat (map (\<lambda>s. replicate (nat (s_r s))
        (Some (py_int_truediv self (s_d s) (timescale st)))) (find_S timeline))"
      by (rule normal_runs)
    finally show ?thesis .
  qed
  have "length (media_segments stream stream') =
      length (concat (map (\<lambda>s. replicate (nat (s_r s))
               (Some (py_int_truediv self (s_d s) (timescale st)))) (find_S timeline)))"
    using arg_cong [OF durs, of length] by simp
  then have "length (media_segments stream stream') = (\<Sum>s\<leftarrow>find_S timeline. nat (s_r s))"
    by (simp only: length_runs)
  with durs show ?thesis by simp
qed

text \<open>
  The theorem on the scenario of the spec: the runs \<open>d = 2, r = 3\<close> and \<open>d = 4, r = 1\<close> at
  timescale 1 give four media segments, of durations 2, 2, 2 and 4.
\<close>

theorem walk_s_media_segments_witness:
  "map duration (media_segments ex_stream
       (projr (walk_s ex_parser ex_timeline ex_template ex_representation ex_stream))) =
     [Some 2, Some 2, Some 2, Some 4] \<and>
   length (media_segments ex_stream
       (projr (walk_s ex_parser ex_timeline ex_template ex_representation ex_stream))) = 4"
proof -
  have ok: "walk_s ex_parser ex_timeline ex_template ex_representation ex_stream =
      Inr (projr (walk_s ex_parser ex_timeline ex_template ex_representation ex_stream))"
    by code_simp
  have uc: "under_construction ex_stream" by code_simp
  have d: "map duration (media_segments ex_stream
       (projr (walk_s ex_parser ex_timeline ex_template ex_representation ex_stream))) =
     [Some 2, Some 2, Some 2, Some 4]" by code_simp
  have n: "(\<Sum>s\<leftarrow>find_S ex_timeline. nat (s_r s)) = 4" by code_simp
  show ?thesis
    using walk_s_media_segments [OF ok uc] d n by simp
qed

text \<open>
  C6, as stated, fails on a run with a negative repeat count: for the runs \<open>d = 2, r = 3\<close>
  and \<open>d = 4, r = -1\<close> three media segments are emitted, and the repeat counts sum to 2.
\<close>

theorem walk_s_negative_repeat:
  "map_sum id (\<lambda>s. int (length (media_segments ex_stream s)))
     (walk_s ex_parser \<lparr>find_S = [\<lparr>s_d = 2, s_r = 3\<rparr>, \<lparr>s_d = 4, s_r = - 1\<rparr>]\<rparr>
        ex_template ex_representation ex_stream) = Inr 3 \<and>
   (\<Sum>s\<leftarrow>[\<lparr>s_d = 2, s_r = 3\<rparr>, \<lparr>s_d = 4, s_r = - 1\<rparr>]. s_r s) = 2"
  by code_simp

section \<open>The direct link\<close>

text \<open>The stream that \<open>walk_representation\<close> creates has its placeholder and no more.\<close>

lemma walk_contentprotection_frame:
  "segments (foldl append_key s ks) = segments s \<and> home_url (foldl append_key s ks) = home_url s \<and>
   base_url (foldl append_key s ks) = base_url s \<and> save_dir (foldl append_key s ks) = save_dir s"
  by (induction ks arbitrary: s) (simp_all add: append_key_def)

lemma walk_representation_stream_frame:
  "segments (walk_representation_stream self a uris sindex rep) =
     [placeholder 0 (args_save_dir self)] \<and>
   home_url (walk_representation_stream self a uris sindex rep) = fst (snd uris) \<and>
   base_url (walk_representation_stream self a uris sindex rep) = snd (snd uris) \<and>
   save_dir (walk_representation_stream self a uris sindex rep) = args_save_dir self"
  by (cases uris)
    (simp add: walk_representation_stream_def Let_def walk_contentprotection_def
      walk_contentprotection_frame set_skey_def set_lang_def set_bandwidth_def set_codecs_def
      set_stream_type_def set_resolution_def DASHStream_init_def append_segment_def)

lemma walk_representation_stream_under_construction:
  "under_construction (walk_representation_stream self a uris sindex rep)"
  by (simp add: under_construction_def walk_representation_stream_frame)
















section \<open>The numbering of the segments of a stream\<close>

lemma contiguous_index_nonneg:
  assumes "contiguous_from_0 segs" and "seg \<in> set segs"
  shows "0 \<le> index seg"
proof -
  from assms(2) have "index seg \<in> set (map index segs)" by simp
  also from assms(1) have "map index segs = map int [0..<length segs]"
    by (simp only: contiguous_from_0_def)
  finally show ?thesis by auto
qed

lemma zero_padded_placeholder: "zero_padded_4_digits (placeholder n dir)"
  by (rule zero_padded_fill [where n = n])
    (simp_all add: placeholder_def set_folder_def set_index_def Segment_init_def Let_def
      py_str_def)

lemma zero_padded_add_offset:
  assumes "0 \<le> index seg" and "0 \<le> k"
  shows "zero_padded_4_digits (add_offset_for_name seg k)"
  using assms
  by (intro zero_padded_fill [where n = "nat (index seg + k)"])
    (simp_all add: add_offset_for_name_def py_str_def Let_def)

lemma zero_padded_cong:
  assumes "index seg' = index seg" and "name seg' = name seg" and "suffix seg' = suffix seg"
  shows "zero_padded_4_digits seg' = zero_padded_4_digits seg"
  using assms by (simp add: zero_padded_4_digits_def name_stem_def)

lemma numbered_Nil: "numbered []"
  by (simp add: numbered_def contiguous_from_0_def)

text \<open>A new placeholder continues the numbering.\<close>

lemma numbered_snoc_placeholder:
  "numbered segs \<Longrightarrow> numbered (segs @ [placeholder (length segs) dir])"
  by (simp add: numbered_def contiguous_from_0_def placeholder_fields zero_padded_placeholder)

text \<open>A change of a segment that leaves index, name and suffix alone keeps the numbering.\<close>

lemma numbered_map:
  assumes keep: "\<And>seg. index (f seg) = index seg \<and> name (f seg) = name seg \<and>
                   suffix (f seg) = suffix seg"
    and "numbered segs"
  shows "numbered (map f segs)"
proof -
  have i: "map index (map f segs) = map index segs"
    by (induction segs) (simp_all add: keep)
  from assms(2) have "map index segs = map int [0..<length segs]"
    by (simp add: numbered_def contiguous_from_0_def)
  with i have "map index (map f segs) = map int [0..<length (map f segs)]"
    by (simp only: length_map)
  then have c: "contiguous_from_0 (map f segs)"
    by (simp only: contiguous_from_0_def)
  have "list_all zero_padded_4_digits (map f segs) = list_all zero_padded_4_digits segs"
    by (induction segs) (simp_all add: zero_padded_cong [of "f seg" seg for seg] keep)
  with assms(2) have "list_all zero_padded_4_digits (map f segs)"
    by (simp add: numbered_def)
  with c show ?thesis
    by (simp only: numbered_def simp_thms)
qed

lemma numbered_map_last:
  assumes keep: "\<And>seg. index (f seg) = index seg \<and> name (f seg) = name seg \<and>
                   suffix (f seg) = suffix seg"
    and "numbered segs"
  shows "numbered (map_last f segs)"
proof (cases "segs = []")
  case True
  then show ?thesis by (simp add: map_last_def numbered_Nil)
next
  case False
  have "map index (map_last f segs) = map index (butlast segs) @ [index (last segs)]"
    using False by (simp add: map_last_nonempty keep)
  also have "\<dots> = map index segs"
    using map_butlast_last [OF False, of index] by simp
  finally have i: "map index (map_last f segs) = map index segs" .
  have "zero_padded_4_digits (f (last segs)) = zero_padded_4_digits (last segs)"
    by (rule zero_padded_cong) (simp_all add: keep)
  moreover from assms(2) False have "zero_padded_4_digits (last segs)"
    by (simp add: numbered_def list_all_iff)
  moreover from assms(2) have "list_all zero_padded_4_digits (butlast segs)"
    by (auto simp add: numbered_def list_all_iff dest: in_set_butlastD)
  ultimately have "list_all zero_padded_4_digits (map_last f segs)"
    using False by (simp add: map_last_nonempty)
  with i assms(2) show ?thesis
    by (simp add: numbered_def contiguous_from_0_def length_map_last)
qed

text \<open>The trim keeps the numbering.\<close>

lemma numbered_butlast:
  assumes "numbered segs"
  shows "numbered (butlast segs)"
proof -
  from assms have "map index segs = map int [0..<length segs]"
    by (simp add: numbered_def contiguous_from_0_def)
  then have "butlast (map index segs) = butlast (map int [0..<length segs])"
    by (rule arg_cong)
  moreover have "butlast [0..<length segs] = [0..<length segs - 1]"
    by (cases "length segs") simp_all
  ultimately have "map index (butlast segs) = map int [0..<length segs - 1]"
    by (simp add: map_butlast [symmetric])
  moreover from assms have "list_all zero_padded_4_digits (butlast segs)"
    by (auto simp add: numbered_def list_all_iff dest: in_set_butlastD)
  ultimately show ?thesis
    by (simp add: numbered_def contiguous_from_0_def)
qed

text \<open>
  The merge of a stream into another: \<open>add_offset_for_name\<close> with the number of segments
  that are there makes the numbering of the two sequences one.
\<close>

lemma numbered_update:
  assumes "numbered a" and "numbered b"
  shows "numbered (a @ map (\<lambda>seg. add_offset_for_name seg (int (length a))) b)"
proof -
  from assms have a: "map index a = map int [0..<length a]"
    and b: "map index b = map int [0..<length b]"
    by (simp_all add: numbered_def contiguous_from_0_def)
  have "map index (map (\<lambda>seg. add_offset_for_name seg (int (length a))) b) =
      map (\<lambda>i. i + int (length a)) (map index b)"
    by (simp add: add_offset_for_name_def Let_def)
  also have "\<dots> = map int (map (\<lambda>j. j + length a) [0..<length b])"
    by (simp add: b)
  also have "\<dots> = map int [length a..<length b + length a]"
    by (simp only: map_add_upt)
  finally have "map index (a @ map (\<lambda>seg. add_offset_for_name seg (int (length a))) b) =
      map int ([0..<length a] @ [length a..<length a + length b])"
    by (simp add: a add.commute)
  also have "[0..<length a] @ [length a..<length a + length b] = [0..<length a + length b]"
    by (simp add: upt_add_eq_append [symmetric])
  finally have i: "contiguous_from_0 (a @ map (\<lambda>seg. add_offset_for_name seg (int (length a))) b)"
    by (simp add: contiguous_from_0_def)
  have "zero_padded_4_digits (add_offset_for_name seg (int (length a)))" if "seg \<in> set b" for seg
  proof (rule zero_padded_add_offset)
    from assms(2) that show "0 \<le> index seg"
      by (auto simp add: numbered_def intro: contiguous_index_nonneg)
  qed simp
  with assms(1) have "list_all zero_padded_4_digits
      (a @ map (\<lambda>seg. add_offset_for_name seg (int (length a))) b)"
    by (auto simp add: numbered_def list_all_iff)
  with i show ?thesis by (simp add: numbered_def)
qed

lemma segment_content_add_offset:
  "segment_content (add_offset_for_name seg k) = segment_content seg"
  by (simp add: segment_content_def add_offset_for_name_def Let_def)

text \<open>What the operations of a stream do to the numbering of its segments.\<close>

lemma numbered_set_media_url:
  assumes "numbered (segments s)"
  shows "numbered (segments (set_media_url self s u))"
proof -
  have "numbered (map_last (\<lambda>seg. seg\<lparr>url := fix_url self (home_url s) (base_url s) u\<rparr>)
      (segments s))"
    by (rule numbered_map_last) (simp_all add: assms)
  from numbered_snoc_placeholder [OF this] show ?thesis
    by (simp add: segments_set_media_url length_map_last)
qed

lemma numbered_set_init_url:
  assumes "numbered (segments s)"
  shows "numbered (segments (set_init_url self s u))"
proof -
  have "numbered (map_last (\<lambda>seg. seg\<lparr>url := fix_url self (home_url s) (base_url s) u,
      segment_type := ''init''\<rparr>) (segments s))"
    by (rule numbered_map_last) (simp_all add: assms)
  from numbered_snoc_placeholder [OF this] show ?thesis
    by (simp add: segments_set_init_url length_map_last)
qed

lemma numbered_set_segment_duration:
  assumes "numbered (segments s)"
  shows "numbered (segments (set_segment_duration s dur))"
  unfolding segments_set_segment_duration
  by (rule numbered_map_last) (simp_all add: assms)

lemma numbered_set_segments_duration:
  assumes "numbered (segments s)"
  shows "numbered (segments (set_segments_duration s dur))"
proof -
  have "numbered (map (\<lambda>seg. seg\<lparr>duration := Some dur\<rparr>) (segments s))"
    by (rule numbered_map) (simp_all add: assms)
  then show ?thesis by (simp add: set_segments_duration_def)
qed

lemma numbered_set_subtitle_url:
  assumes "numbered (segments s)"
  shows "numbered (segments (set_subtitle_url s u))"
proof -
  have "numbered (map_last (\<lambda>seg. seg\<lparr>url := u, segment_type := ''subtitle''\<rparr>) (segments s))"
    by (rule numbered_map_last) (simp_all add: assms)
  then show ?thesis by (simp add: set_subtitle_url_def)
qed

lemma numbered_base2url:
  assumes "numbered (segments s)"
  shows "numbered (segments (base2url s dur))"
proof -
  have "numbered (map_last (\<lambda>seg. seg\<lparr>url := base_url s, duration := dur\<rparr>) (segments s))"
    by (rule numbered_map_last) (simp_all add: assms)
  then show ?thesis by (simp add: base2url_def)
qed

lemma numbered_foldl_set_media_url:
  "numbered (segments s) \<Longrightarrow>
     numbered (segments (foldl (\<lambda>s n. set_media_url self s (f n)) s ns))"
  by (induction ns arbitrary: s) (simp_all add: numbered_set_media_url)

text \<open>Every resolution keeps the numbering of the stream it is given.\<close>

lemma numbered_walk_s_range:
  assumes "walk_s_range self st rep s iv k (t, n, stream) = Inr (t', n', stream')"
    and "numbered (segments stream)"
  shows "numbered (segments stream')"
  using assms
proof (induction k arbitrary: t n stream)
  case 0
  then show ?case by simp
next
  case (Suc k)
  from Suc.prems(1) obtain t1 n1 s1 where
    step: "walk_s_step self st rep s iv (t, n, stream) = Inr (t1, n1, s1)" and
    rest: "walk_s_range self st rep s iv k (t1, n1, s1) = Inr (t', n', stream')"
    by (auto split: sum.splits)
  from walk_s_step_result [OF step] Suc.prems(2) have "numbered (segments s1)"
    by (auto simp add: numbered_set_media_url numbered_set_segment_duration)
  from Suc.IH [OF rest this] show ?case .
qed

lemma numbered_walk_s_loop:
  assumes "walk_s_loop self st rep ss (t, n, stream) = Inr (t', n', stream')"
    and "numbered (segments stream)"
  shows "numbered (segments stream')"
  using assms
proof (induction ss arbitrary: t n stream)
  case Nil
  then show ?case by simp
next
  case (Cons s ss)
  from Cons.prems(1) obtain iv t1 n1 s1 where
    run: "walk_s_range self st rep s iv (nat (s_r s)) (t, n, stream) = Inr (t1, n1, s1)" and
    rest: "walk_s_loop self st rep ss (t1, n1, s1) = Inr (t', n', stream')"
    by (auto split: sum.splits)
  from Cons.IH [OF rest numbered_walk_s_range [OF run Cons.prems(2)]] show ?case .
qed

lemma numbered_walk_s:
  assumes "walk_s self timeline st rep stream = Inr stream'" and "numbered (segments stream)"
  shows "numbered (segments stream')"
proof (cases "get_url st")
  case None
  with assms(1) obtain t' n' where
    "walk_s_loop self st rep (find_S timeline)
       (presentationTimeOffset st, startNumber st, stream) = Inr (t', n', stream')"
    by (auto simp add: walk_s_def split: sum.splits)
  from numbered_walk_s_loop [OF this assms(2)] show ?thesis .
next
  case (Some init0)
  define u where "u = (let i = (if py_in ''$RepresentationID$'' init0
                                then py_replace init0 ''$RepresentationID$'' (rep_id rep)
                                else init0)
                       in if py_in ''$Bandwidth$'' i
                          then py_replace i ''$Bandwidth$'' (py_str (rep_bandwidth rep))
                          else i)"
  define s0 where "s0 = (case re_match_audio_lang u of
                           Some l \<Rightarrow> set_lang stream (Some l) | None \<Rightarrow> stream)"
  have "segments s0 = segments stream"
    by (simp add: s0_def set_lang_def split: option.split)
  with assms(2) have s0: "numbered (segments (set_init_url self s0 u))"
    by (simp add: numbered_set_init_url)
  from assms(1) Some obtain t' n' where
    "walk_s_loop self st rep (find_S timeline)
       (presentationTimeOffset st, startNumber st, set_init_url self s0 u) =
       Inr (t', n', stream')"
    by (auto simp add: walk_s_def Let_def u_def s0_def split: sum.splits)
  from numbered_walk_s_loop [OF this s0] show ?thesis .
qed

lemma numbered_generate_v1:
  assumes "generate_v1 self period rid st stream = Inr stream'"
    and "numbered (segments stream)"
  shows "numbered (segments stream')"
  using assms
  by (auto simp add: generate_v1_def Let_def numbered_set_segments_duration
      numbered_foldl_set_media_url numbered_set_init_url
      split: option.splits sum.splits)

lemma numbered_walk_segmenttimeline:
  assumes "walk_segmenttimeline self st rep stream = Inr (msgs, stream')"
    and "numbered (segments stream)"
  shows "numbered (segments stream')"
  using assms
  by (auto simp add: walk_segmenttimeline_def Let_def map_sum_def
      split: if_splits sum.splits dest: numbered_walk_s)

lemma numbered_walk_segmenttemplate:
  assumes "walk_segmenttemplate self rep period stream = Inr (msgs, stream')"
    and "numbered (segments stream)"
  shows "numbered (segments stream')"
  using assms
  by (auto simp add: walk_segmenttemplate_def Let_def map_sum_def
      split: if_splits sum.splits
      dest: numbered_generate_v1 numbered_walk_segmenttimeline)

lemma numbered_walk_representation_templates:
  assumes "walk_representation_templates self sts rep period stream = Inr (msgs, stream')"
    and "numbered (segments stream)"
  shows "numbered (segments stream')"
  using assms
  by (auto simp add: walk_representation_templates_def map_sum_def
      split: if_splits sum.splits
      dest: numbered_generate_v1 numbered_walk_segmenttimeline
        numbered_walk_segmenttemplate)

lemma numbered_walk_representation_body:
  assumes "walk_representation_body self a period uris sts sindex rep = Inr (msgs, stream')"
  shows "numbered (segments stream')"
proof -
  let ?s0 = "walk_representation_stream self a uris sindex rep"
  have s0: "numbered (segments ?s0)"
    using numbered_snoc_placeholder [OF numbered_Nil, of "args_save_dir self"]
    by (simp add: walk_representation_stream_frame)
  then have s1: "numbered (segments (fix_base_url self ?s0 u))" for u
    by (simp add: fix_base_url_def)
  from assms s0 s1 show ?thesis
    by (auto simp add: walk_representation_body_def Let_def numbered_set_subtitle_url
        numbered_base2url
        split: if_splits dest: numbered_walk_representation_templates)
qed

lemma numbered_walk_representation_loop:
  assumes "walk_representation_loop self a period uris sts sindex reps = Inr (msgs, streams)"
  shows "list_all (\<lambda>s. numbered (segments s)) streams"
  using assms
proof (induction reps arbitrary: sindex msgs streams)
  case Nil
  then show ?case by simp
next
  case (Cons rep reps)
  from Cons.prems obtain m1 s1 m2 ss where
    body: "walk_representation_body self a period uris sts sindex rep = Inr (m1, s1)" and
    rest: "walk_representation_loop self a period uris sts (sindex + 1) reps = Inr (m2, ss)" and
    res: "streams = s1 # ss"
    by (auto split: sum.splits prod.splits)
  from numbered_walk_representation_body [OF body] Cons.IH [OF rest] res show ?case
    by simp
qed

lemma numbered_walk_adaptationset_loop:
  assumes "walk_adaptationset_loop self period uris sindex as = Inr (msgs, streams)"
  shows "list_all (\<lambda>s. numbered (segments s)) streams"
  using assms
proof (induction as arbitrary: sindex msgs streams)
  case Nil
  then show ?case by simp
next
  case (Cons a as)
  show ?case
  proof (cases "as_mimeType a = Some ''image/jpeg''")
    case True
    with Cons.prems Cons.IH show ?thesis by simp
  next
    case False
    with Cons.prems obtain m1 s1 m2 s2 where
      reps: "walk_representation self a period sindex uris = Inr (m1, s1)" and
      rest: "walk_adaptationset_loop self period uris (sindex + int (length s1)) as =
               Inr (m2, s2)" and
      res: "streams = s1 @ s2"
      by (auto split: sum.splits prod.splits)
    from reps have "list_all (\<lambda>s. numbered (segments s)) s1"
      by (simp add: walk_representation_def numbered_walk_representation_loop)
    with Cons.IH [OF rest] res show ?thesis by simp
  qed
qed

lemma numbered_walk_period_loop:
  assumes "walk_period_loop self uris sindex periods = Inr (msgs, streams)"
  shows "list_all (\<lambda>s. numbered (segments s)) streams"
  using assms
proof (induction periods arbitrary: sindex msgs streams)
  case Nil
  then show ?case by simp
next
  case (Cons period periods)
  from Cons.prems obtain m1 s1 m2 s2 where
    one: "walk_adaptationset self period sindex uris = Inr (m1, s1)" and
    rest: "walk_period_loop self uris (sindex + int (length s1)) periods = Inr (m2, s2)" and
    res: "streams = s1 @ s2"
    by (auto split: sum.splits prod.splits)
  from one have "list_all (\<lambda>s. numbered (segments s)) s1"
    by (simp add: walk_adaptationset_def numbered_walk_adaptationset_loop)
  with Cons.IH [OF rest] res show ?case by simp
qed

lemma numbered_trim_streams:
  assumes "trim_streams streams = Inr streams'"
    and "list_all (\<lambda>s. numbered (segments s)) streams"
  shows "list_all (\<lambda>s. numbered (segments s)) streams'"
  using assms
proof (induction streams arbitrary: streams')
  case Nil
  then show ?case by simp
next
  case (Cons s streams)
  from Cons.prems(1) obtain s' ss where
    one: "trim_stream s = Inr s'" and rest: "trim_streams streams = Inr ss" and
    res: "streams' = s' # ss"
    by (auto split: sum.splits)
  from one Cons.prems(2) have "numbered (segments s')"
    by (auto simp add: trim_stream_def numbered_butlast split: if_splits)
  with Cons.IH [OF rest] Cons.prems(2) res show ?case by simp
qed

text \<open>The streams that \<open>walk_period\<close> has before the merge are numbered from 0, each.\<close>

lemma numbered_walk_period_streams:
  assumes "walk_period_streams self mpd uris = Inr (msgs, streams)"
  shows "list_all (\<lambda>s. numbered (segments s)) streams"
proof -
  from assms obtain resolved where
    loop: "walk_period_loop self uris 0 (backfill_duration mpd) = Inr (msgs, resolved)" and
    trim: "trim_streams resolved = Inr streams"
    by (auto simp add: walk_period_streams_def split: sum.splits prod.splits)
  from numbered_trim_streams [OF trim numbered_walk_period_loop [OF loop]] show ?thesis .
qed

section \<open>The merge of the streams of several Periods\<close>

lemma skey_update: "skey (update v s) = skey v"
  by (simp add: update_def)

text \<open>One more stream, seen from a stream of the dictionary: of another key, of its key.\<close>

lemma merge_of_snoc_other:
  assumes "merge_of seen v" and "skey s \<noteq> skey v"
  shows "merge_of (seen @ [s]) v"
  using assms by (simp add: merge_of_def)

lemma merge_of_snoc_update:
  assumes "merge_of seen v" and "skey s = skey v" and "numbered (segments s)"
  shows "merge_of (seen @ [s]) (update v s)"
  using assms numbered_update [of "segments v" "segments s"]
  by (simp add: merge_of_def update_def segment_content_add_offset o_def)

lemma merge_of_first:
  assumes "skey s \<notin> set (map skey seen)" and "numbered (segments s)"
  shows "merge_of (seen @ [s]) s"
proof -
  from assms(1) have "filter (\<lambda>x. skey x = skey s) seen = []"
    unfolding filter_empty_conv by (metis image_eqI set_map)
  with assms(2) show ?thesis by (simp add: merge_of_def)
qed

text \<open>
  The dictionary \<open>skey_stream\<close> after the streams \<open>seen\<close>: its keys are the keys of \<open>seen\<close>
  in the order of their first occurrence, and under each key is the merge of the streams
  of that key. One pass of the loop keeps that.
\<close>

lemma merge_streams_step:
  assumes keys: "map fst acc = rev (remdups (rev (map skey seen)))"
    and inv: "list_all (\<lambda>(k, v). skey v = k \<and> merge_of seen v) acc"
    and s: "numbered (segments s)"
  shows "map fst (if skey s \<in> fst ` set acc
                  then map (\<lambda>(k, v). if k = skey s then (k, update v s) else (k, v)) acc
                  else acc @ [(skey s, s)]) =
           rev (remdups (rev (map skey (seen @ [s]))))"
    and "list_all (\<lambda>(k, v). skey v = k \<and> merge_of (seen @ [s]) v)
           (if skey s \<in> fst ` set acc
            then map (\<lambda>(k, v). if k = skey s then (k, update v s) else (k, v)) acc
            else acc @ [(skey s, s)])"
proof -
  from arg_cong [OF keys, of set] have ks: "fst ` set acc = skey ` set seen"
    by simp
  have same: "map (fst \<circ> (\<lambda>(k, v). if k = skey s then (k, update v s) else (k, v))) xs =
      map fst xs" for xs :: "((string \<times> string) \<times> DASHStream) list"
    by (induction xs) auto
  show "map fst (if skey s \<in> fst ` set acc
                  then map (\<lambda>(k, v). if k = skey s then (k, update v s) else (k, v)) acc
                  else acc @ [(skey s, s)]) =
           rev (remdups (rev (map skey (seen @ [s]))))"
    using keys ks by (simp add: same)
  show "list_all (\<lambda>(k, v). skey v = k \<and> merge_of (seen @ [s]) v)
           (if skey s \<in> fst ` set acc
            then map (\<lambda>(k, v). if k = skey s then (k, update v s) else (k, v)) acc
            else acc @ [(skey s, s)])"
  proof (cases "skey s \<in> fst ` set acc")
    case True
    from inv have "list_all ((\<lambda>(k, v). skey v = k \<and> merge_of (seen @ [s]) v) \<circ>
        (\<lambda>(k, v). if k = skey s then (k, update v s) else (k, v))) acc"
    proof (rule list.pred_mono_strong)
      fix x
      assume "case x of (k, v) \<Rightarrow> skey v = k \<and> merge_of seen v"
      with s show "((\<lambda>(k, v). skey v = k \<and> merge_of (seen @ [s]) v) \<circ>
          (\<lambda>(k, v). if k = skey s then (k, update v s) else (k, v))) x"
        by (cases x) (simp add: skey_update merge_of_snoc_update merge_of_snoc_other)
    qed
    with True show ?thesis
      by (simp add: list.pred_map)
  next
    case False
    then have "skey s \<notin> set (map skey seen)"
      using ks by simp
    from merge_of_first [OF this s] have new: "merge_of (seen @ [s]) s" .
    have "merge_of (seen @ [s]) v" if "(k, v) \<in> set acc" for k v
    proof (rule merge_of_snoc_other)
      from inv that show "merge_of seen v" by (auto simp add: list_all_iff)
      from inv that have "skey v = k" by (auto simp add: list_all_iff)
      moreover from that have "k \<in> fst ` set acc" by force
      ultimately show "skey s \<noteq> skey v" using False by metis
    qed
    with inv new False show ?thesis
      by (auto simp add: list_all_iff)
  qed
qed

lemma merge_streams_invariant:
  assumes "list_all (\<lambda>s. numbered (segments s)) rest"
    and "map fst acc = rev (remdups (rev (map skey seen)))"
    and "list_all (\<lambda>(k, v). skey v = k \<and> merge_of seen v) acc"
  shows "map fst (merge_streams acc rest) = rev (remdups (rev (map skey (seen @ rest)))) \<and>
         list_all (\<lambda>(k, v). skey v = k \<and> merge_of (seen @ rest) v) (merge_streams acc rest)"
  using assms
proof (induction rest arbitrary: acc seen)
  case Nil
  then show ?case by simp
next
  case (Cons s rest)
  from Cons.prems(1) have s: "numbered (segments s)"
    and r: "list_all (\<lambda>s. numbered (segments s)) rest"
    by simp_all
  from Cons.IH [OF r merge_streams_step(1) [OF Cons.prems(2,3) s]
      merge_streams_step(2) [OF Cons.prems(2,3) s]]
  show ?case by simp
qed

lemma values_of_entries:
  "list_all (\<lambda>(k, v). skey v = k \<and> P v) xs \<Longrightarrow>
     map skey (map snd xs) = map fst xs \<and> list_all P (map snd xs)"
  by (induction xs) auto

text \<open>
  C8. Let \<open>streams\<close> be the streams that \<open>walk_period\<close> has resolved for all Periods, in
  the order resolved. If the manifest has exactly one Period, or the caller requested
  split, \<open>walk_period\<close> returns them as they are. Otherwise (more than one Period, or none,
  and no split) it returns one stream for each identity key, the keys in the order of
  their first occurrence; the segments of the stream of a key are those of the streams of
  that key, stream after stream in the order resolved, which is the order of the Periods,
  with the indices renumbered contiguously from 0 and the names following the indices.
\<close>

theorem walk_period_merge:
  assumes "walk_period_streams self mpd uris = Inr (msgs, streams)"
  shows "(length (find_Period mpd) = 1 \<or> args_split self \<longrightarrow>
            walk_period self mpd uris = Inr (msgs, streams)) \<and>
         (length (find_Period mpd) \<noteq> 1 \<and> \<not> args_split self \<longrightarrow>
            (\<exists>merged. walk_period self mpd uris = Inr (msgs, merged) \<and>
               map skey merged = rev (remdups (rev (map skey streams))) \<and>
               distinct (map skey merged) \<and>
               list_all (merge_of streams) merged))"
proof -
  from numbered_walk_period_streams [OF assms]
  have n: "list_all (\<lambda>s. numbered (segments s)) streams" .
  from merge_streams_invariant [OF n, of "[]" "[]"]
  have keys: "map fst (merge_streams [] streams) = rev (remdups (rev (map skey streams)))"
    and inv: "list_all (\<lambda>(k, v). skey v = k \<and> merge_of streams v) (merge_streams [] streams)"
    by simp_all
  from values_of_entries [OF inv] keys
  have "map skey (map snd (merge_streams [] streams)) = rev (remdups (rev (map skey streams)))"
    and "list_all (merge_of streams) (map snd (merge_streams [] streams))"
    by simp_all
  moreover have "distinct (rev (remdups (rev (map skey streams))))"
    by simp
  ultimately show ?thesis
    using assms by (simp add: walk_period_def)
qed

text \<open>
  The theorem on the scenario of the spec, two Periods each with a stream of the key
  \<open>(0, v0)\<close>: without split the result is one stream of that key, the merge of the two;
  with split the two streams are returned as resolved.
\<close>

theorem walk_period_merge_witness:
  "(\<exists>merged. walk_period ex_parser ex_mpd_two_periods ex_uris = Inr ([], merged) \<and>
      map skey merged = [(''0'', ''v0'')] \<and>
      list_all (merge_of
        (snd (projr (walk_period_streams ex_parser ex_mpd_two_periods ex_uris)))) merged) \<and>
   walk_period (ex_parser\<lparr>args_split := True\<rparr>) ex_mpd_two_periods ex_uris =
     Inr ([], snd (projr (walk_period_streams (ex_parser\<lparr>args_split := True\<rparr>)
                     ex_mpd_two_periods ex_uris))) \<and>
   map skey (snd (projr (walk_period_streams (ex_parser\<lparr>args_split := True\<rparr>)
                     ex_mpd_two_periods ex_uris))) = [(''0'', ''v0''), (''0'', ''v0'')]"
proof -
  have ok: "walk_period_streams ex_parser ex_mpd_two_periods ex_uris =
      Inr ([], snd (projr (walk_period_streams ex_parser ex_mpd_two_periods ex_uris)))"
    by code_simp
  have ok': "walk_period_streams (ex_parser\<lparr>args_split := True\<rparr>) ex_mpd_two_periods ex_uris =
      Inr ([], snd (projr (walk_period_streams (ex_parser\<lparr>args_split := True\<rparr>)
                      ex_mpd_two_periods ex_uris)))"
    by code_simp
  have c: "length (find_Period ex_mpd_two_periods) \<noteq> 1 \<and> \<not> args_split ex_parser"
    by code_simp
  have c': "args_split (ex_parser\<lparr>args_split := True\<rparr>)"
    by simp
  have k: "rev (remdups (rev (map skey
      (snd (projr (walk_period_streams ex_parser ex_mpd_two_periods ex_uris)))))) =
      [(''0'', ''v0'')]"
    by code_simp
  have k': "map skey (snd (projr (walk_period_streams (ex_parser\<lparr>args_split := True\<rparr>)
                     ex_mpd_two_periods ex_uris))) = [(''0'', ''v0''), (''0'', ''v0'')]"
    by code_simp
  from walk_period_merge [OF ok] c k
  have "\<exists>merged. walk_period ex_parser ex_mpd_two_periods ex_uris = Inr ([], merged) \<and>
      map skey merged = [(''0'', ''v0'')] \<and>
      list_all (merge_of
        (snd (projr (walk_period_streams ex_parser ex_mpd_two_periods ex_uris)))) merged"
    by auto
  moreover from walk_period_merge [OF ok'] c'
  have "walk_period (ex_parser\<lparr>args_split := True\<rparr>) ex_mpd_two_periods ex_uris =
     Inr ([], snd (projr (walk_period_streams (ex_parser\<lparr>args_split := True\<rparr>)
                     ex_mpd_two_periods ex_uris)))"
    by blast
  ultimately show ?thesis
    using k' by blast
qed

text \<open>
  The scenario evaluated. The two Periods give an initialization segment and three media
  segments, and an initialization segment and two media segments; merged, they are
  numbered 0 to 6. With split they stay two streams, each numbered from 0. And two streams
  of one key in a single Period stay two.
\<close>

lemma two_periods_merged:
  "result_numbers (walk_period ex_parser ex_mpd_two_periods ex_uris) =
     Inr [[(0, ''0000.ts'', ''http://h/a/init-v0.mp4''),
           (1, ''0001.ts'', ''http://h/a/seg-1.m4s''),
           (2, ''0002.ts'', ''http://h/a/seg-2.m4s''),
           (3, ''0003.ts'', ''http://h/a/seg-3.m4s''),
           (4, ''0004.ts'', ''http://h/a/init-v0.mp4''),
           (5, ''0005.ts'', ''http://h/a/seg-1.m4s''),
           (6, ''0006.ts'', ''http://h/a/seg-2.m4s'')]]"
  by code_simp

lemma two_periods_split:
  "result_numbers (walk_period (ex_parser\<lparr>args_split := True\<rparr>) ex_mpd_two_periods ex_uris) =
     Inr [[(0, ''0000.ts'', ''http://h/a/init-v0.mp4''),
           (1, ''0001.ts'', ''http://h/a/seg-1.m4s''),
           (2, ''0002.ts'', ''http://h/a/seg-2.m4s''),
           (3, ''0003.ts'', ''http://h/a/seg-3.m4s'')],
          [(0, ''0000.ts'', ''http://h/a/init-v0.mp4''),
           (1, ''0001.ts'', ''http://h/a/seg-1.m4s''),
           (2, ''0002.ts'', ''http://h/a/seg-2.m4s'')]]"
  by code_simp

lemma same_id_single_period_unmerged:
  "map_sum id (\<lambda>(msgs, streams). map skey streams)
     (walk_period ex_parser ex_mpd_same_id ex_uris) =
     Inr [(''0'', ''v0''), (''0'', ''v0'')]"
  by code_simp

text \<open>Where the resolution of the Periods or the trim raises, \<open>walk_period\<close> raises the same.\<close>

lemma walk_period_raises:
  "walk_period_streams self mpd uris = Inl e \<Longrightarrow> walk_period self mpd uris = Inl e"
  by (simp add: walk_period_def)

end
